theory Spec2Isabelle
  imports Main "HOL-Library.AList"
begin

section \<open>Data model\<close>

text \<open>
  The values \<open>yaml.safe_load\<close> produces, as far as the handler tells them apart: it tests
  a value for being a \<open>dict\<close>, for being a \<open>str\<close>, for being \<open>None\<close> and for its truth
  value. A Python \<open>dict\<close> is an association list in insertion order whose keys are
  distinct; the message trees of the specification have string keys.
  Floats, dates, byte strings and sets are left out: for the handler they behave like
  \<open>YInt\<close> or \<open>YList\<close> (neither mapping nor string).
\<close>

datatype yaml =
    YNone
  | YBool bool
  | YInt int
  | YStr string
  | YList "yaml list"
  | YDict "(string \<times> yaml) list"

type_synonym tree = "(string \<times> yaml) list"

text \<open>Python's truth value of a loaded document (\<open>bool(v)\<close>).\<close>

fun truthy :: "yaml \<Rightarrow> bool" where
  "truthy YNone = False"
| "truthy (YBool b) = b"
| "truthy (YInt i) = (i \<noteq> 0)"
| "truthy (YStr s) = (s \<noteq> [])"
| "truthy (YList xs) = (xs \<noteq> [])"
| "truthy (YDict d) = (d \<noteq> [])"

text \<open>The exceptions of the modelled paths, as values.\<close>

datatype py_error = KeyError string | IndexError | ValueError

section \<open>TranslationCache\<close>

text \<open>
  \<open>_cache\<close> and \<open>_timestamps\<close> are two separate dictionaries, as in the source. Times are
  integers counting microseconds (the resolution of \<open>datetime\<close>); \<open>ttl\<close> is the
  \<open>timedelta\<close> \<open>_ttl\<close> in microseconds. Every method body runs under the instance's lock
  and contains no suspension point, so a method is one atomic state transition. The
  reading of \<open>datetime.now()\<close> is the argument \<open>now\<close>.
\<close>

record TranslationCache =
  cache :: "(string \<times> tree) list"
  timestamps :: "(string \<times> int) list"
  ttl :: int

definition timedelta_minutes :: "int \<Rightarrow> int" where
  "timedelta_minutes m = m * 60000000"

definition TranslationCache_init :: "int \<Rightarrow> TranslationCache" where
  "TranslationCache_init ttl_minutes =
     \<lparr>cache = [], timestamps = [], ttl = timedelta_minutes ttl_minutes\<rparr>"

definition update_ttl :: "int \<Rightarrow> TranslationCache \<Rightarrow> TranslationCache" where
  "update_ttl ttl_minutes c = c\<lparr>ttl := timedelta_minutes ttl_minutes\<rparr>"

text \<open>
  \<open>get\<close>: \<open>self._timestamps[key]\<close> raises \<open>KeyError\<close> when the key is in \<open>_cache\<close> only;
  the state is then unchanged.
\<close>

definition cache_get ::
  "int \<Rightarrow> string \<Rightarrow> TranslationCache \<Rightarrow> (py_error + tree option) \<times> TranslationCache" where
  "cache_get now key c =
     (case map_of (cache c) key of
        None \<Rightarrow> (Inr None, c)
      | Some v \<Rightarrow>
          (case map_of (timestamps c) key of
             None \<Rightarrow> (Inl (KeyError key), c)
           | Some ts \<Rightarrow>
               if now - ts > ttl c
               then (Inr None,
                     c\<lparr>cache := AList.delete key (cache c),
                       timestamps := AList.delete key (timestamps c)\<rparr>)
               else (Inr (Some v), c)))"

definition cache_set :: "int \<Rightarrow> string \<Rightarrow> tree \<Rightarrow> TranslationCache \<Rightarrow> TranslationCache" where
  "cache_set now key v c =
     c\<lparr>cache := AList.update key v (cache c),
       timestamps := AList.update key now (timestamps c)\<rparr>"

text \<open>\<open>clear\<close>: \<open>if key:\<close> tests the truth value of an \<open>Optional[str]\<close>.\<close>

definition cache_clear :: "string option \<Rightarrow> TranslationCache \<Rightarrow> TranslationCache" where
  "cache_clear key c =
     (case key of
        Some k \<Rightarrow>
          if k \<noteq> []
          then c\<lparr>cache := AList.delete k (cache c),
                 timestamps := AList.delete k (timestamps c)\<rparr>
          else c\<lparr>cache := [], timestamps := []\<rparr>
      | None \<Rightarrow> c\<lparr>cache := [], timestamps := []\<rparr>)"

record stats =
  entries :: nat
  languages :: "string list"
  oldest_entry :: "int option"

definition get_stats :: "TranslationCache \<Rightarrow> stats" where
  "get_stats c =
     \<lparr>entries = length (cache c),
      languages = map fst (cache c),
      oldest_entry =
        (case map snd (timestamps c) of [] \<Rightarrow> None | t # rest \<Rightarrow> Some (fold min rest t))\<rparr>"

text \<open>Sequences of cache operations, for statements about every reachable cache state.\<close>

datatype cache_op =
    Get int string
  | Set int string tree
  | Clear "string option"
  | Update_ttl int

fun apply_op :: "TranslationCache \<Rightarrow> cache_op \<Rightarrow> TranslationCache" where
  "apply_op c (Get now key) = snd (cache_get now key c)"
| "apply_op c (Set now key v) = cache_set now key v c"
| "apply_op c (Clear key) = cache_clear key c"
| "apply_op c (Update_ttl m) = update_ttl m c"

definition run_ops :: "cache_op list \<Rightarrow> TranslationCache \<Rightarrow> TranslationCache" where
  "run_ops ops c = foldl apply_op c ops"

text \<open>The two dictionaries hold the same keys in the same order, each key once.\<close>

definition synced :: "TranslationCache \<Rightarrow> bool" where
  "synced c \<longleftrightarrow> map fst (cache c) = map fst (timestamps c) \<and> distinct (map fst (cache c))"

section \<open>Translation sources\<close>

text \<open>
  The file \<open>translation_path / f"{code}.yaml"\<close> of a language code, as the loader sees it:
  \<open>file_path.exists()\<close> is whether the code has a source at all, \<open>st_mtime\<close> is the result
  of \<open>file_path.stat().st_mtime\<close> (\<open>None\<close> when \<open>stat\<close> raises), and \<open>content\<close> is the
  outcome of opening the file and running \<open>yaml.safe_load\<close> on it. Modification times are
  compared for equality only and are modelled by integers.
\<close>

datatype content = Parsed yaml | YAMLError | ReadError

record source =
  st_mtime :: "int option"
  content :: content

type_synonym files = "string \<Rightarrow> source option"

text \<open>The file-system calls a request makes, in order.\<close>

datatype io = Exists string | Stat string | Open string

section \<open>TranslationHandler\<close>

text \<open>
  The class-level state: the settings the handler reads, the cache instance \<open>_cache\<close>
  (\<open>None\<close> until first use) and \<open>_file_watchers\<close>. Logging only writes to the logger and
  the console and is left out. A call runs without interleaving with other calls.
  \<open>clk n\<close> is the reading of \<open>datetime.now()\<close> during the \<open>n\<close>-th cache operation of a
  call (counted from 0), so time may pass between the operations of one call.
\<close>

record handler =
  fallback_languages :: "string list"
  default_language :: string
  cache_ttl_minutes :: int
  cache_instance :: "TranslationCache option"
  file_watchers :: "(string \<times> int) list"

definition initial_handler :: handler where
  "initial_handler =
     \<lparr>fallback_languages = [''en'', ''de''], default_language = ''en'',
      cache_ttl_minutes = 30, cache_instance = None, file_watchers = []\<rparr>"

text \<open>
  \<open>settings\<close> with \<open>TranslationSettings.configure\<close> inlined (the path and the logging
  options are not part of the model). The \<open>elif\<close> branch is kept as written.
\<close>

definition settings ::
  "string list option \<Rightarrow> string option \<Rightarrow> int option \<Rightarrow> handler \<Rightarrow> handler" where
  "settings fallback_langs default_lang cache_ttl s =
     (let s1 = s\<lparr>fallback_languages :=
                    (case fallback_langs of None \<Rightarrow> fallback_languages s | Some f \<Rightarrow> f),
                  default_language :=
                    (case default_lang of None \<Rightarrow> default_language s | Some d \<Rightarrow> d),
                  cache_ttl_minutes :=
                    (case cache_ttl of None \<Rightarrow> cache_ttl_minutes s | Some t \<Rightarrow> t)\<rparr>
      in if cache_instance s1 = None \<or> cache_ttl \<noteq> None
         then s1\<lparr>cache_instance := Some (TranslationCache_init
                  (case cache_ttl of Some t \<Rightarrow> t | None \<Rightarrow> cache_ttl_minutes s1))\<rparr>
         else (case (cache_instance s1, cache_ttl) of
                 (Some c, Some t) \<Rightarrow> s1\<lparr>cache_instance := Some (update_ttl t c)\<rparr>
               | _ \<Rightarrow> s1))"

text \<open>The cache instance after \<open>_ensure_cache\<close>.\<close>

definition cache_of :: "handler \<Rightarrow> TranslationCache" where
  "cache_of s =
     (case cache_instance s of
        None \<Rightarrow> TranslationCache_init (cache_ttl_minutes s)
      | Some c \<Rightarrow> c)"

subsection \<open>load_messages\<close>

text \<open>
  The modification-time shortcut of the loop body (lines 352 to 356): the candidate's own
  cache entry is consulted when the recorded modification time is unchanged and the
  reload is not forced. The result is the outcome (\<open>Inr (Some cached)\<close>: return the
  cached tree; \<open>Inr None\<close>: go on and read the file; \<open>Inl e\<close>: the exception raised inside
  the \<open>try\<close>), the index of the next clock reading and the cache.
\<close>

definition check_unchanged ::
  "(nat \<Rightarrow> int) \<Rightarrow> bool \<Rightarrow> string \<Rightarrow> int \<Rightarrow> nat \<Rightarrow> TranslationCache \<Rightarrow> (string \<times> int) list
     \<Rightarrow> (py_error + tree option) \<times> nat \<times> TranslationCache" where
  "check_unchanged clk force_reload code mtime n c w =
     (if map_of w code = Some mtime \<and> \<not> force_reload
      then (case cache_get (clk n) code c of
              (Inl e, c1) \<Rightarrow> (Inl e, Suc n, c1)
            | (Inr None, c1) \<Rightarrow> (Inr None, Suc n, c1)
            | (Inr (Some cached), c1) \<Rightarrow>
                (if cached \<noteq> [] then Inr (Some cached) else Inr None, Suc n, c1))
      else (Inr None, n, c))"

text \<open>
  Lines 358 to 364: \<open>yaml.safe_load(f) or {}\<close> followed by the \<open>isinstance(data, dict)\<close>
  test. \<open>None\<close> is a failed candidate (exception or invalid structure).
\<close>

definition read_source :: "source \<Rightarrow> tree option" where
  "read_source f =
     (case content f of
        Parsed v \<Rightarrow>
          (case (if truthy v then v else YDict []) of
             YDict data \<Rightarrow> Some data
           | _ \<Rightarrow> None)
      | YAMLError \<Rightarrow> None
      | ReadError \<Rightarrow> None)"

definition emit :: "io list \<Rightarrow> 'a \<times> 'b \<times> 'c \<times> io list \<Rightarrow> 'a \<times> 'b \<times> 'c \<times> io list" where
  "emit evs r = (case r of (a, b, c, rest) \<Rightarrow> (a, b, c, evs @ rest))"

text \<open>
  The \<open>for code in (lang_code, *fallback_languages)\<close> loop with the exhaustion branch
  after it. It returns the tree, the cache, the file watchers and the file-system calls.
\<close>

fun load_loop ::
  "files \<Rightarrow> (nat \<Rightarrow> int) \<Rightarrow> bool \<Rightarrow> string \<Rightarrow> string list \<Rightarrow> nat \<Rightarrow> TranslationCache
     \<Rightarrow> (string \<times> int) list \<Rightarrow> tree \<times> TranslationCache \<times> (string \<times> int) list \<times> io list" where
  "load_loop fs clk force_reload lang_code [] n c w =
     ([], cache_set (clk n) lang_code [] c, w, [])"
| "load_loop fs clk force_reload lang_code (code # codes) n c w =
     (case fs code of
        None \<Rightarrow> emit [Exists code] (load_loop fs clk force_reload lang_code codes n c w)
      | Some f \<Rightarrow>
          (case st_mtime f of
             None \<Rightarrow>
               emit [Exists code, Stat code]
                 (load_loop fs clk force_reload lang_code codes n c w)
           | Some mtime \<Rightarrow>
               (case check_unchanged clk force_reload code mtime n c w of
                  (Inl e, n1, c1) \<Rightarrow>
                    emit [Exists code, Stat code]
                      (load_loop fs clk force_reload lang_code codes n1 c1 w)
                | (Inr (Some cached), n1, c1) \<Rightarrow> (cached, c1, w, [Exists code, Stat code])
                | (Inr None, n1, c1) \<Rightarrow>
                    (case read_source f of
                       None \<Rightarrow>
                         emit [Exists code, Stat code, Open code]
                           (load_loop fs clk force_reload lang_code codes n1 c1 w)
                     | Some data \<Rightarrow>
                         (data, cache_set (clk n1) lang_code data c1,
                          AList.update code mtime w,
                          [Exists code, Stat code, Open code])))))"

definition load_messages ::
  "files \<Rightarrow> (nat \<Rightarrow> int) \<Rightarrow> string \<Rightarrow> bool \<Rightarrow> handler \<Rightarrow> (py_error + tree) \<times> handler \<times> io list" where
  "load_messages fs clk lang_code force_reload s =
     (let finish = (\<lambda>r. case r of (t, c, w, evs) \<Rightarrow>
                      (Inr t, s\<lparr>cache_instance := Some c, file_watchers := w\<rparr>, evs));
          codes = lang_code # fallback_languages s
      in if \<not> force_reload
         then (case cache_get (clk 0) lang_code (cache_of s) of
                 (Inl e, c1) \<Rightarrow> (Inl e, s\<lparr>cache_instance := Some c1\<rparr>, [])
               | (Inr (Some cached), c1) \<Rightarrow> (Inr cached, s\<lparr>cache_instance := Some c1\<rparr>, [])
               | (Inr None, c1) \<Rightarrow>
                   finish (load_loop fs clk force_reload lang_code codes 1 c1 (file_watchers s)))
         else finish (load_loop fs clk force_reload lang_code codes 0 (cache_of s)
                        (file_watchers s)))"

subsection \<open>clear_cache\<close>

definition clear_cache :: "string option \<Rightarrow> handler \<Rightarrow> handler" where
  "clear_cache lang_code s =
     (let c = cache_clear lang_code (cache_of s)
      in case lang_code of
           Some l \<Rightarrow>
             if l \<noteq> []
             then s\<lparr>cache_instance := Some c,
                    file_watchers := AList.delete l (file_watchers s)\<rparr>
             else s\<lparr>cache_instance := Some c, file_watchers := []\<rparr>
         | None \<Rightarrow> s\<lparr>cache_instance := Some c, file_watchers := []\<rparr>)"

definition get_cache_stats :: "handler \<Rightarrow> stats" where
  "get_cache_stats s = get_stats (cache_of s)"

subsection \<open>get and get_async\<close>

text \<open>
  A key path is a dot-separated string or a list of segments; \<open>split_on\<close> is
  \<open>str.split\<close> with a one-character separator.
\<close>

datatype key_path = Dotted string | Segments "string list"

fun split_on :: "char \<Rightarrow> string \<Rightarrow> string list" where
  "split_on sep [] = [] # []"
| "split_on sep (c # cs) =
     (if c = sep then [] # split_on sep cs
      else (case split_on sep cs of
              [] \<Rightarrow> [c] # []
            | r # rs \<Rightarrow> (c # r) # rs))"

definition segments :: "key_path \<Rightarrow> string list" where
  "segments path = (case path of Dotted p \<Rightarrow> split_on CHR ''.'' p | Segments ks \<Rightarrow> ks)"

text \<open>
  The \<open>for key in path\<close> loop: \<open>None\<close> stands for the two \<open>return default\<close> statements
  inside the loop, \<open>Some value\<close> for the value the loop ends with.
\<close>

fun navigate :: "yaml \<Rightarrow> string list \<Rightarrow> yaml option" where
  "navigate v [] = Some v"
| "navigate v (key # keys) =
     (case v of
        YDict d \<Rightarrow>
          (case map_of d key of
             None \<Rightarrow> None
           | Some v' \<Rightarrow> if v' = YNone then None else navigate v' keys)
      | _ \<Rightarrow> None)"

text \<open>
  \<open>value.format(**placeholders)\<close> is Python's built-in \<open>str.format\<close>; it is the
  parameter \<open>fmt\<close>, which returns the formatted text or the exception raised.
  Lines 433 to 461 of \<open>get\<close> and 487 to 503 of \<open>get_async\<close> compute the same function
  of the loaded tree.
\<close>

type_synonym formatter = "string \<Rightarrow> (string \<times> string) list \<Rightarrow> py_error + string"

definition resolve ::
  "formatter \<Rightarrow> tree \<Rightarrow> string list \<Rightarrow> string \<Rightarrow> (string \<times> string) list \<Rightarrow> string" where
  "resolve fmt messages path dflt placeholders =
     (case navigate (YDict messages) path of
        None \<Rightarrow> dflt
      | Some v \<Rightarrow>
          (case v of
             YStr template \<Rightarrow>
               (case fmt template placeholders of
                  Inr text \<Rightarrow> text
                | Inl e \<Rightarrow> template)
           | _ \<Rightarrow> dflt))"

text \<open>
  \<open>get\<close> is modelled where no event loop is running, so that \<open>run_until_complete\<close>
  runs \<open>load_messages\<close> to completion. An exception of \<open>load_messages\<close> propagates.
\<close>

definition get ::
  "formatter \<Rightarrow> files \<Rightarrow> (nat \<Rightarrow> int) \<Rightarrow> string \<Rightarrow> key_path \<Rightarrow> string
     \<Rightarrow> (string \<times> string) list \<Rightarrow> handler \<Rightarrow> (py_error + string) \<times> handler \<times> io list" where
  "get fmt fs clk lang_code path dflt placeholders s =
     (case load_messages fs clk lang_code False s of
        (Inl e, s1, evs) \<Rightarrow> (Inl e, s1, evs)
      | (Inr messages, s1, evs) \<Rightarrow>
          (Inr (resolve fmt messages (segments path) dflt placeholders), s1, evs))"

definition get_async ::
  "formatter \<Rightarrow> files \<Rightarrow> (nat \<Rightarrow> int) \<Rightarrow> string \<Rightarrow> key_path \<Rightarrow> string
     \<Rightarrow> (string \<times> string) list \<Rightarrow> handler \<Rightarrow> (py_error + string) \<times> handler \<times> io list" where
  "get_async fmt fs clk lang_code path dflt placeholders s =
     (case load_messages fs clk lang_code False s of
        (Inl e, s1, evs) \<Rightarrow> (Inl e, s1, evs)
      | (Inr messages, s1, evs) \<Rightarrow>
          (Inr (resolve fmt messages (segments path) dflt placeholders), s1, evs))"

subsection \<open>str.format on plain templates\<close>

text \<open>
  What \<open>str.format\<close> does with keyword arguments only, on templates made of literal
  text, the doubled braces \<open>{{\<close> and \<open>}}\<close>, and replacement fields \<open>{name}\<close> whose
  name is a plain keyword: ASCII, without conversion (\<open>!\<close>), format specification (\<open>:\<close>),
  attribute or index access (\<open>.\<close>, \<open>[\<close>, \<open>]\<close>), nested braces, and not a number. The
  template is processed from left to right and the first failure ends it. The result is
  \<open>None\<close> where the template leaves this fragment. The second argument is the name of
  the replacement field being read, if any.
\<close>

definition field_char :: "char \<Rightarrow> bool" where
  "field_char c \<longleftrightarrow> c \<notin> set ''{}!:.[]'' \<and> (of_char c :: nat) < 128"

definition all_digits :: "string \<Rightarrow> bool" where
  "all_digits name \<longleftrightarrow> list_all (\<lambda>c. c \<in> set ''0123456789'') name"

definition out :: "string \<Rightarrow> (py_error + string) option \<Rightarrow> (py_error + string) option" where
  "out text r =
     (case r of
        None \<Rightarrow> None
      | Some (Inl e) \<Rightarrow> Some (Inl e)
      | Some (Inr rest) \<Rightarrow> Some (Inr (text @ rest)))"

fun format_scan ::
  "(string \<times> string) list \<Rightarrow> string option \<Rightarrow> string \<Rightarrow> (py_error + string) option" where
  "format_scan kw None [] = Some (Inr [])"
| "format_scan kw None (c # cs) =
     (if c = CHR ''{'' then
        (case cs of
           [] \<Rightarrow> Some (Inl ValueError)
         | d # ds \<Rightarrow>
             if d = CHR ''{'' then out ''{'' (format_scan kw None ds)
             else format_scan kw (Some []) cs)
      else if c = CHR ''}'' then
        (case cs of
           [] \<Rightarrow> Some (Inl ValueError)
         | d # ds \<Rightarrow>
             if d = CHR ''}'' then out ''}'' (format_scan kw None ds)
             else Some (Inl ValueError))
      else out [c] (format_scan kw None cs))"
| "format_scan kw (Some name) [] = Some (Inl ValueError)"
| "format_scan kw (Some name) (c # cs) =
     (if c = CHR ''}'' then
        (if name = [] then Some (Inl IndexError)
         else if all_digits name then None
         else (case map_of kw name of
                 None \<Rightarrow> Some (Inl (KeyError name))
               | Some v \<Rightarrow> out v (format_scan kw None cs)))
      else if field_char c then format_scan kw (Some (name @ [c])) cs
      else None)"

definition str_format_plain :: "string \<Rightarrow> (string \<times> string) list \<Rightarrow> (py_error + string) option" where
  "str_format_plain template kw = format_scan kw None template"

text \<open>A formatter that is \<open>str.format\<close> on the plain templates.\<close>

definition formats_plain :: "formatter \<Rightarrow> bool" where
  "formats_plain fmt \<longleftrightarrow>
     (\<forall>template kw r. str_format_plain template kw = Some r \<longrightarrow> fmt template kw = r)"

text \<open>
  One such formatter, for the examples. Outside the plain templates its result is a
  placeholder (\<open>ValueError\<close>) and no statement below depends on it.
\<close>

definition plain_formatter :: formatter where
  "plain_formatter template kw =
     (case str_format_plain template kw of None \<Rightarrow> Inl ValueError | Some r \<Rightarrow> r)"

subsection \<open>get_all_translations\<close>

text \<open>
  The loop over the languages; \<open>clks i\<close> is the clock of the \<open>i\<close>-th \<open>get_async\<close> call.
  An exception of a call is caught and the language is skipped. \<open>available\<close> is the
  result of \<open>get_available_languages\<close> (a directory listing).
\<close>

fun collect_translations ::
  "formatter \<Rightarrow> files \<Rightarrow> (nat \<Rightarrow> nat \<Rightarrow> int) \<Rightarrow> key_path \<Rightarrow> string list
     \<Rightarrow> (string \<times> string) list \<Rightarrow> handler \<Rightarrow> (string \<times> string) list \<times> handler \<times> io list" where
  "collect_translations fmt fs clks path [] results s = (results, s, [])"
| "collect_translations fmt fs clks path (lang # langs) results s =
     (case get_async fmt fs (clks 0) lang path [] [] s of
        (Inr translation, s1, evs) \<Rightarrow>
          (case collect_translations fmt fs (\<lambda>i. clks (Suc i)) path langs
                  (if translation \<noteq> [] then AList.update lang translation results
                   else results) s1 of
             (res, s2, evs2) \<Rightarrow> (res, s2, evs @ evs2))
      | (Inl e, s1, evs) \<Rightarrow>
          (case collect_translations fmt fs (\<lambda>i. clks (Suc i)) path langs results s1 of
             (res, s2, evs2) \<Rightarrow> (res, s2, evs @ evs2)))"

definition get_all_translations ::
  "formatter \<Rightarrow> files \<Rightarrow> (nat \<Rightarrow> nat \<Rightarrow> int) \<Rightarrow> string list \<Rightarrow> key_path \<Rightarrow> string list option
     \<Rightarrow> handler \<Rightarrow> (py_error + (string \<times> string) list) \<times> handler \<times> io list" where
  "get_all_translations fmt fs clks available path langs s =
     (case collect_translations fmt fs clks path
             (case langs of None \<Rightarrow> available | Some ls \<Rightarrow> ls) [] s of
        (results, s1, evs) \<Rightarrow> (Inr results, s1, evs))"

subsection \<open>validate_translations\<close>

text \<open>
  The local function \<open>get_all_keys\<close>. \<open>if prefix\<close> tests the prefix for being non-empty.
\<close>

function get_all_keys :: "tree \<Rightarrow> string \<Rightarrow> string set" where
  "get_all_keys [] prefix = {}"
| "get_all_keys ((k, v) # d) prefix =
     (case v of
        YDict sub \<Rightarrow> get_all_keys sub (if prefix \<noteq> [] then prefix @ ''.'' @ k else k)
      | _ \<Rightarrow> {if prefix \<noteq> [] then prefix @ ''.'' @ k else k})
     \<union> get_all_keys d prefix"
  by pat_completeness auto
termination
  by (relation "measure (\<lambda>(d, prefix). size (YDict d))") auto

text \<open>
  The result dictionary. The two messages are kept as data; \<open>missing_keys\<close> and
  \<open>extra_keys\<close> are lists made from sets, in no specified order, and are sets here.
\<close>

datatype message =
    No_translations_found string
  | Validation_error py_error
  | Keys_missing nat string

record validation =
  valid :: bool
  errors :: "message list"
  warnings :: "message list"
  missing_keys :: "string set"
  extra_keys :: "string set"

definition validate_translations ::
  "files \<Rightarrow> (nat \<Rightarrow> int) \<Rightarrow> (nat \<Rightarrow> int) \<Rightarrow> string \<Rightarrow> handler \<Rightarrow> validation \<times> handler \<times> io list" where
  "validate_translations fs clk clk2 lang_code s =
     (let results = \<lparr>valid = True, errors = [], warnings = [],
                     missing_keys = {}, extra_keys = {}\<rparr>
      in case load_messages fs clk lang_code True s of
           (Inl e, s1, evs) \<Rightarrow>
             (results\<lparr>valid := False, errors := [Validation_error e]\<rparr>, s1, evs)
         | (Inr translations, s1, evs) \<Rightarrow>
             if translations = []
             then (results\<lparr>valid := False, errors := [No_translations_found lang_code]\<rparr>,
                   s1, evs)
             else if lang_code \<noteq> default_language s1
             then (case load_messages fs clk2 (default_language s1) False s1 of
                     (Inl e, s2, evs2) \<Rightarrow>
                       (results\<lparr>valid := False, errors := [Validation_error e]\<rparr>,
                        s2, evs @ evs2)
                   | (Inr default_trans, s2, evs2) \<Rightarrow>
                       (let default_keys = get_all_keys default_trans [];
                            current_keys = get_all_keys translations [];
                            missing = default_keys - current_keys
                        in (results\<lparr>missing_keys := missing,
                                    extra_keys := current_keys - default_keys,
                                    warnings :=
                                      (if missing \<noteq> {}
                                       then [Keys_missing (card missing) (default_language s2)]
                                       else [])\<rparr>,
                            s2, evs @ evs2)))
             else (results, s1, evs))"

section \<open>Reachable handler states\<close>

text \<open>
  The calls that change the class-level state, each with the files and the clock it
  meets; \<open>get\<close>, \<open>get_async\<close>, \<open>get_all_translations\<close> and \<open>validate_translations\<close>
  change it through \<open>load_messages\<close> only.
\<close>

datatype handler_op =
    Load_messages files "nat \<Rightarrow> int" string bool
  | Clear_cache "string option"
  | Settings "string list option" "string option" "int option"

fun apply_handler_op :: "handler \<Rightarrow> handler_op \<Rightarrow> handler" where
  "apply_handler_op s (Load_messages fs clk lang_code force_reload) =
     fst (snd (load_messages fs clk lang_code force_reload s))"
| "apply_handler_op s (Clear_cache lang_code) = clear_cache lang_code s"
| "apply_handler_op s (Settings fallback_langs default_lang cache_ttl) =
     settings fallback_langs default_lang cache_ttl s"

definition run_handler :: "handler_op list \<Rightarrow> handler \<Rightarrow> handler" where
  "run_handler ops s = foldl apply_handler_op s ops"

text \<open>The call does not request the language \<open>code\<close> itself.\<close>

fun never_requests :: "string \<Rightarrow> handler_op \<Rightarrow> bool" where
  "never_requests code (Load_messages fs clk lang_code force_reload) = (lang_code \<noteq> code)"
| "never_requests code (Clear_cache lang_code) = True"
| "never_requests code (Settings fallback_langs default_lang cache_ttl) = True"

text \<open>The cache has no entry keyed \<open>k\<close>.\<close>

definition no_entry :: "string \<Rightarrow> handler \<Rightarrow> bool" where
  "no_entry k s \<longleftrightarrow> map_of (cache (cache_of s)) k = None"

section \<open>Notions of the specification\<close>

text \<open>
  The definitions of this section follow the words of the specification; the theorems
  compare them with the functions above.
\<close>

text \<open>
  The value a key path leads to in a tree: plain nested lookup, \<open>None\<close> when a segment
  is absent or the value reached before the last segment is not a mapping.
\<close>

fun value_at :: "yaml \<Rightarrow> string list \<Rightarrow> yaml option" where
  "value_at v [] = Some v"
| "value_at (YDict d) (k # ks) =
     (case map_of d k of None \<Rightarrow> None | Some v \<Rightarrow> value_at v ks)"
| "value_at v (k # ks) = None"

text \<open>
  A plain template as a sequence of literal texts and named fields, the template
  string that denotes it (braces of literal text doubled), and named substitution:
  the text with every field replaced by its value, or \<open>KeyError\<close> for the first field
  whose name is not supplied.
\<close>

datatype piece = Lit string | Field string

fun escape :: "string \<Rightarrow> string" where
  "escape [] = []"
| "escape (c # cs) =
     (if c = CHR ''{'' then ''{{'' else if c = CHR ''}'' then ''}}'' else [c]) @ escape cs"

fun template_of :: "piece list \<Rightarrow> string" where
  "template_of [] = []"
| "template_of (Lit text # ps) = escape text @ template_of ps"
| "template_of (Field name # ps) = ''{'' @ name @ ''}'' @ template_of ps"

fun substitute :: "(string \<times> string) list \<Rightarrow> piece list \<Rightarrow> py_error + string" where
  "substitute kw [] = Inr []"
| "substitute kw (Lit text # ps) =
     (case substitute kw ps of Inl e \<Rightarrow> Inl e | Inr rest \<Rightarrow> Inr (text @ rest))"
| "substitute kw (Field name # ps) =
     (case map_of kw name of
        None \<Rightarrow> Inl (KeyError name)
      | Some v \<Rightarrow>
          (case substitute kw ps of Inl e \<Rightarrow> Inl e | Inr rest \<Rightarrow> Inr (v @ rest)))"

fun field_names :: "piece list \<Rightarrow> string list" where
  "field_names [] = []"
| "field_names (Lit text # ps) = field_names ps"
| "field_names (Field name # ps) = name # field_names ps"

definition plain_name :: "string \<Rightarrow> bool" where
  "plain_name name \<longleftrightarrow> name \<noteq> [] \<and> list_all field_char name \<and> \<not> all_digits name"

text \<open>
  The outcome of resolving the key for each language in turn, each call starting from
  the state the previous one left, and the non-empty strings among the outcomes.
\<close>

fun resolutions ::
  "formatter \<Rightarrow> files \<Rightarrow> (nat \<Rightarrow> nat \<Rightarrow> int) \<Rightarrow> key_path \<Rightarrow> string list \<Rightarrow> handler
     \<Rightarrow> (string \<times> (py_error + string)) list" where
  "resolutions fmt fs clks path [] s = []"
| "resolutions fmt fs clks path (lang # langs) s =
     (lang, fst (get_async fmt fs (clks 0) lang path [] [] s))
       # resolutions fmt fs (\<lambda>i. clks (Suc i)) path langs
           (fst (snd (get_async fmt fs (clks 0) lang path [] [] s)))"

fun successes :: "(string \<times> (py_error + string)) list \<Rightarrow> (string \<times> string) list" where
  "successes [] = []"
| "successes ((lang, Inl e) # rs) = successes rs"
| "successes ((lang, Inr text) # rs) =
     (if text \<noteq> [] then (lang, text) # successes rs else successes rs)"

text \<open>
  The key paths of a tree that end in a leaf (a value that is not a mapping), and the
  dot-joined form of a path (\<open>".".join\<close>).
\<close>

function leaf_paths :: "tree \<Rightarrow> string list set" where
  "leaf_paths [] = {}"
| "leaf_paths ((k, v) # d) =
     (case v of
        YDict sub \<Rightarrow> (\<lambda>p. k # p) ` leaf_paths sub
      | _ \<Rightarrow> {[k]})
     \<union> leaf_paths d"
  by pat_completeness auto
termination
  by (relation "measure (\<lambda>d. size (YDict d))") auto

fun dot_join :: "string list \<Rightarrow> string" where
  "dot_join [] = []"
| "dot_join [k] = k"
| "dot_join (k # ks) = k @ ''.'' @ dot_join ks"

text \<open>No top-level key that holds a nested mapping is the empty string.\<close>

definition no_empty_section :: "tree \<Rightarrow> bool" where
  "no_empty_section d \<longleftrightarrow> list_all (\<lambda>(k, v). k = [] \<longrightarrow> (case v of YDict sub \<Rightarrow> False | _ \<Rightarrow> True)) d"

section \<open>Properties of the cache\<close>

lemma synced_init: "synced (TranslationCache_init m)"
  by (simp add: synced_def TranslationCache_init_def)

lemma synced_update_ttl: "synced c \<Longrightarrow> synced (update_ttl m c)"
  by (auto simp: synced_def update_ttl_def)

lemma synced_cache_set: "synced c \<Longrightarrow> synced (cache_set now key v c)"
  by (auto simp: synced_def cache_set_def update_keys)

lemma synced_cache_clear: "synced c \<Longrightarrow> synced (cache_clear key c)"
  by (auto simp: synced_def cache_clear_def delete_keys distinct_removeAll split: option.splits)

lemma synced_cache_get: "synced c \<Longrightarrow> synced (snd (cache_get now key c))"
  by (auto simp: synced_def cache_get_def delete_keys distinct_removeAll split: option.splits)

lemma synced_apply_op: "synced c \<Longrightarrow> synced (apply_op c op)"
  by (cases op)
     (simp_all add: synced_cache_get synced_cache_set synced_cache_clear synced_update_ttl)

lemma synced_run_ops: "synced c \<Longrightarrow> synced (run_ops ops c)"
  unfolding run_ops_def
  by (induction ops arbitrary: c) (simp_all add: synced_apply_op)

text \<open>In a synced cache \<open>get\<close> never raises.\<close>

lemma synced_map_of:
  "synced c \<Longrightarrow> map_of (cache c) key = Some v \<Longrightarrow> \<exists>ts. map_of (timestamps c) key = Some ts"
proof -
  assume s: "synced c" and v: "map_of (cache c) key = Some v"
  from v have "key \<in> fst ` set (cache c)"
    by (metis domI dom_map_of_conv_image_fst)
  with s have "key \<in> fst ` set (timestamps c)"
    by (metis synced_def set_map)
  then have "key \<in> dom (map_of (timestamps c))"
    by (simp add: dom_map_of_conv_image_fst)
  then show ?thesis by blast
qed

lemma cache_get_no_error:
  "synced c \<Longrightarrow> \<exists>r. fst (cache_get now key c) = Inr r"
proof (cases "map_of (cache c) key")
  case None
  then show ?thesis by (simp add: cache_get_def)
next
  case (Some v)
  assume "synced c"
  with Some obtain ts where "map_of (timestamps c) key = Some ts"
    using synced_map_of by blast
  with Some show ?thesis by (simp add: cache_get_def)
qed

lemma fold_min_Min: "fold min rest (t::int) = Min (set (t # rest))"
  by (simp only: Min.set_eq_fold)


text \<open>
  Claim C1, as the code has it: an entry stored by \<open>set\<close> at time \<open>t\<close> is treated as absent
  (\<open>get\<close> returns \<open>None\<close> and removes it from both dictionaries) by every \<open>get\<close> at a
  time strictly after \<open>t + ttl\<close>; every \<open>get\<close> at or before \<open>t + ttl\<close> returns the
  stored tree and leaves the cache unchanged.
\<close>

theorem cache_get_after_set:
  "(ttl c < now - t \<longrightarrow>
      fst (cache_get now key (cache_set t key v c)) = Inr None \<and>
      map_of (cache (snd (cache_get now key (cache_set t key v c)))) key = None \<and>
      map_of (timestamps (snd (cache_get now key (cache_set t key v c)))) key = None) \<and>
   (now - t \<le> ttl c \<longrightarrow>
      cache_get now key (cache_set t key v c) = (Inr (Some v), cache_set t key v c))"
  by (simp add: cache_get_def cache_set_def update_conv' delete_conv')

theorem cache_get_after_set_witness:
  "fst (cache_get 1800001001 ''en'' (cache_set 1000 ''en'' [(''hello'', YStr ''Hello'')]
          (TranslationCache_init 30))) = Inr None \<and>
   cache_get 1800001000 ''en'' (cache_set 1000 ''en'' [(''hello'', YStr ''Hello'')]
          (TranslationCache_init 30)) =
     (Inr (Some [(''hello'', YStr ''Hello'')]),
      cache_set 1000 ''en'' [(''hello'', YStr ''Hello'')] (TranslationCache_init 30))"
  using cache_get_after_set [of "TranslationCache_init 30" 1800001001 1000 "''en''"
          "[(''hello'', YStr ''Hello'')]"]
        cache_get_after_set [of "TranslationCache_init 30" 1800001000 1000 "''en''"
          "[(''hello'', YStr ''Hello'')]"]
  by (simp add: TranslationCache_init_def timedelta_minutes_def)

text \<open>
  At the instant \<open>t + ttl\<close> itself the entry is still served: with a TTL of 30 minutes
  (1800000000 microseconds) an entry stored at 1000 is returned by a \<open>get\<close> at
  1000 + 1800000000.
\<close>

theorem cache_get_at_expiry_instant:
  "fst (cache_get (1000 + 1800000000) ''en''
          (cache_set 1000 ''en'' [(''hello'', YStr ''Hello'')] (TranslationCache_init 30)))
     = Inr (Some [(''hello'', YStr ''Hello'')]) \<and>
   ttl (TranslationCache_init 30) = 1800000000"
  by (simp add: cache_get_def cache_set_def TranslationCache_init_def timedelta_minutes_def)

lemma oldest_entry_props:
  assumes "distinct (map fst ts)"
  shows "(case map snd ts of [] \<Rightarrow> None | t # rest \<Rightarrow> Some (fold min rest t)) = Some (t::int)
     \<Longrightarrow> (\<exists>l\<in>set (map fst ts). map_of ts l = Some t) \<and>
         (\<forall>l t'. map_of ts l = Some t' \<longrightarrow> t \<le> t')"
proof -
  assume h: "(case map snd ts of [] \<Rightarrow> None | t # rest \<Rightarrow> Some (fold min rest t)) = Some t"
  then have ne: "ts \<noteq> []" by (auto split: list.splits)
  from h obtain x rest where xr: "map snd ts = x # rest" and "t = fold min rest x"
    by (cases "map snd ts") simp_all
  then have t: "t = Min (set (map snd ts))"
    by (simp only: fold_min_Min)
  from ne have "t \<in> set (map snd ts)" unfolding t by (intro Min_in) auto
  then obtain l where "(l, t) \<in> set ts" by auto
  with assms have "map_of ts l = Some t" by simp
  moreover have "l \<in> set (map fst ts)" using \<open>(l, t) \<in> set ts\<close> by force
  moreover have "\<forall>l t'. map_of ts l = Some t' \<longrightarrow> t \<le> t'"
  proof (intro allI impI)
    fix l t' assume "map_of ts l = Some t'"
    then have "(l, t') \<in> set ts" by (rule map_of_SomeD)
    then have "t' \<in> set (map snd ts)" by force
    then show "t \<le> t'" unfolding t by (intro Min_le) auto
  qed
  ultimately show ?thesis by blast
qed

text \<open>
  Claim C10: in every state reached from a new cache by any sequence of \<open>get\<close>, \<open>set\<close>,
  \<open>clear\<close> and \<open>update_ttl\<close> calls, the tree dictionary and the timestamp dictionary have
  the same keys (in the same order, each once), so the entry count, the language list
  and the oldest timestamp of \<open>get_stats\<close> agree: the count is the number of languages
  and of timestamps, the oldest timestamp is missing exactly when the count is zero, and
  otherwise it is the timestamp of a listed language and no listed language is older.
\<close>

theorem cache_maps_in_step:
  "let c = run_ops ops (TranslationCache_init m); st = get_stats c in
     fst ` set (cache c) = fst ` set (timestamps c) \<and>
     map fst (cache c) = map fst (timestamps c) \<and>
     distinct (languages st) \<and>
     entries st = length (languages st) \<and>
     entries st = length (timestamps c) \<and>
     (oldest_entry st = None \<longleftrightarrow> entries st = 0) \<and>
     (\<forall>t. oldest_entry st = Some t \<longrightarrow>
        (\<exists>l\<in>set (languages st). map_of (timestamps c) l = Some t) \<and>
        (\<forall>l\<in>set (languages st). \<forall>t'. map_of (timestamps c) l = Some t' \<longrightarrow> t \<le> t'))"
proof -
  define c where "c = run_ops ops (TranslationCache_init m)"
  have s: "synced c" unfolding c_def by (rule synced_run_ops) (rule synced_init)
  then have keys: "map fst (cache c) = map fst (timestamps c)"
    and dist: "distinct (map fst (cache c))" by (auto simp: synced_def)
  from keys have sets: "fst ` set (cache c) = fst ` set (timestamps c)"
    by (metis set_map)
  from keys have len: "length (cache c) = length (timestamps c)"
    by (metis length_map)
  from keys dist have dts: "distinct (map fst (timestamps c))" by simp
  have none: "oldest_entry (get_stats c) = None \<longleftrightarrow> entries (get_stats c) = 0"
    using len by (cases "timestamps c") (simp_all add: get_stats_def)
  have old: "\<forall>t. oldest_entry (get_stats c) = Some t \<longrightarrow>
        (\<exists>l\<in>set (languages (get_stats c)). map_of (timestamps c) l = Some t) \<and>
        (\<forall>l\<in>set (languages (get_stats c)). \<forall>t'. map_of (timestamps c) l = Some t' \<longrightarrow> t \<le> t')"
  proof (intro allI impI)
    fix t assume "oldest_entry (get_stats c) = Some t"
    then have "(case map snd (timestamps c) of [] \<Rightarrow> None | t # rest \<Rightarrow> Some (fold min rest t)) = Some t"
      by (simp add: get_stats_def)
    from oldest_entry_props [OF dts this]
    show "(\<exists>l\<in>set (languages (get_stats c)). map_of (timestamps c) l = Some t) \<and>
        (\<forall>l\<in>set (languages (get_stats c)). \<forall>t'. map_of (timestamps c) l = Some t' \<longrightarrow> t \<le> t')"
      using keys by (simp add: get_stats_def)
  qed
  show ?thesis
    unfolding Let_def c_def [symmetric]
    using sets keys dist len none old by (simp add: get_stats_def)
qed

theorem cache_maps_in_step_witness:
  "get_stats (run_ops [Set 5 ''en'' [], Set 3 ''de'' [], Get 4 ''en'', Clear (Some ''fr'')]
      (TranslationCache_init 30)) = \<lparr>entries = 2, languages = [''en'', ''de''], oldest_entry = Some 3\<rparr>
   \<and> map fst (timestamps (run_ops [Set 5 ''en'' [], Set 3 ''de'' [], Get 4 ''en'', Clear (Some ''fr'')]
      (TranslationCache_init 30))) = [''en'', ''de'']"
  using cache_maps_in_step [of "[Set 5 ''en'' [], Set 3 ''de'' [], Get 4 ''en'', Clear (Some ''fr'')]" 30]
  by (simp add: run_ops_def cache_get_def cache_set_def cache_clear_def get_stats_def
        TranslationCache_init_def timedelta_minutes_def)


text \<open>
  Claim C9: \<open>clear\<close> and \<open>clear_cache\<close> called with the empty string behave exactly as
  when called with \<open>None\<close>: every cache entry, every timestamp and every file watcher
  is removed, whatever its key.
\<close>

theorem clear_empty_string_clears_all:
  "cache_clear (Some []) c = cache_clear None c \<and>
   cache (cache_clear (Some []) c) = [] \<and>
   timestamps (cache_clear (Some []) c) = [] \<and>
   clear_cache (Some []) s = clear_cache None s \<and>
   file_watchers (clear_cache (Some []) s) = [] \<and>
   cache (cache_of (clear_cache (Some []) s)) = [] \<and>
   timestamps (cache_of (clear_cache (Some []) s)) = []"
  by (simp add: cache_clear_def clear_cache_def cache_of_def)

lemma cache_get_absent:
  "map_of (cache c) key = None \<Longrightarrow> cache_get now key c = (Inr None, c)"
  by (simp add: cache_get_def)

lemma cache_get_keeps_absent:
  "map_of (cache c) k = None \<Longrightarrow> map_of (cache (snd (cache_get now key c))) k = None"
  by (simp add: cache_get_def delete_conv' split: option.splits)



lemma check_unchanged_absent:
  "force_reload \<or> map_of (cache c) code = None \<Longrightarrow>
   \<exists>n1. check_unchanged clk force_reload code mtime n c w = (Inr None, n1, c)"
  by (auto simp: check_unchanged_def cache_get_absent)

lemma check_unchanged_keeps_absent:
  "map_of (cache c) k = None \<Longrightarrow>
   check_unchanged clk force_reload code mtime n c w = (r, n1, c1) \<Longrightarrow>
   map_of (cache c1) k = None"
proof -
  assume a: "map_of (cache c) k = None"
    and b: "check_unchanged clk force_reload code mtime n c w = (r, n1, c1)"
  have "c1 = c \<or> c1 = snd (cache_get (clk n) code c)"
    using b by (auto simp: check_unchanged_def split: if_splits prod.splits sum.splits option.splits)
  with a show ?thesis using cache_get_keeps_absent by metis
qed




lemma emit_tuple: "emit evs (a, b, c, rest) = (a, b, c, evs @ rest)"
  by (simp add: emit_def)






lemma load_loop_all_absent:
  "\<forall>code\<in>set codes. fs code = None \<Longrightarrow>
   load_loop fs clk force_reload lang_code codes n c w =
     ([], cache_set (clk n) lang_code [] c, w, map Exists codes)"
  by (induction codes) (simp_all add: emit_tuple)

lemma resolve_empty_tree: "resolve fmt [] path dflt placeholders = dflt"
  by (cases path) (simp_all add: resolve_def)

lemma cache_get_fresh:
  "now - t \<le> ttl c \<Longrightarrow>
   cache_get now key (cache_set t key v c) = (Inr (Some v), cache_set t key v c)"
  by (simp add: cache_get_def cache_set_def update_conv')

lemma load_messages_hit:
  assumes "cache_instance s = Some c" and "cache_get (clk 0) lang_code c = (Inr (Some t), c)"
  shows "load_messages fs clk lang_code False s = (Inr t, s, [])"
  using assms by (simp add: load_messages_def cache_of_def)

text \<open>
  Claim C4: when no candidate source exists (neither for the requested language nor
  for any fallback) and the request reaches the fallback loop (the first call: the
  language has no valid cache entry, or the reload is forced), \<open>load_messages\<close> checks
  each candidate for existence once, stores the empty tree under the requested code and
  returns it. From then on every \<open>get\<close> and \<open>get_async\<close> for that language whose clock
  reading is within the TTL of the stored timestamp returns the caller's default, makes
  no file-system call at all, whatever the files are by then, and leaves the state
  unchanged, so the same holds for the call after it.
\<close>

theorem exhaustion_served_from_cache:
  assumes absent: "\<forall>code\<in>set (lang_code # fallback_languages s). fs code = None"
    and miss: "force_reload \<or> fst (cache_get (clk 0) lang_code (cache_of s)) = Inr None"
  shows "\<exists>s1 t. load_messages fs clk lang_code force_reload s =
             (Inr [], s1, map Exists (lang_code # fallback_languages s)) \<and>
           map_of (cache (cache_of s1)) lang_code = Some [] \<and>
           map_of (timestamps (cache_of s1)) lang_code = Some t \<and>
           (\<forall>fmt fs2 clk2 path dflt placeholders.
              clk2 0 - t \<le> ttl (cache_of s1) \<longrightarrow>
                get fmt fs2 clk2 lang_code path dflt placeholders s1 = (Inr dflt, s1, []) \<and>
                get_async fmt fs2 clk2 lang_code path dflt placeholders s1 = (Inr dflt, s1, []))"
proof -
  obtain n c1 where run: "load_messages fs clk lang_code force_reload s =
      (Inr [], s\<lparr>cache_instance := Some (cache_set (clk n) lang_code [] c1)\<rparr>,
       map Exists (lang_code # fallback_languages s))"
  proof (cases force_reload)
    case True
    with load_loop_all_absent [OF absent] have "load_messages fs clk lang_code force_reload s =
      (Inr [], s\<lparr>cache_instance := Some (cache_set (clk 0) lang_code [] (cache_of s))\<rparr>,
       map Exists (lang_code # fallback_languages s))"
      by (simp add: load_messages_def)
    then show ?thesis using that by blast
  next
    case False
    with miss obtain c1 where "cache_get (clk 0) lang_code (cache_of s) = (Inr None, c1)"
      by (cases "cache_get (clk 0) lang_code (cache_of s)") auto
    with False load_loop_all_absent [OF absent] have "load_messages fs clk lang_code force_reload s =
      (Inr [], s\<lparr>cache_instance := Some (cache_set (clk 1) lang_code [] c1)\<rparr>,
       map Exists (lang_code # fallback_languages s))"
      by (simp add: load_messages_def)
    then show ?thesis using that by blast
  qed
  define c2 where "c2 = cache_set (clk n) lang_code [] c1"
  define s1 where "s1 = s\<lparr>cache_instance := Some c2\<rparr>"
  have inst: "cache_instance s1 = Some c2" and cof: "cache_of s1 = c2"
    by (simp_all add: s1_def cache_of_def)
  have ent: "map_of (cache c2) lang_code = Some []"
    and ts: "map_of (timestamps c2) lang_code = Some (clk n)"
    by (simp_all add: c2_def cache_set_def update_conv')
  have later: "get fmt fs2 clk2 lang_code path dflt placeholders s1 = (Inr dflt, s1, []) \<and>
        get_async fmt fs2 clk2 lang_code path dflt placeholders s1 = (Inr dflt, s1, [])"
    if w: "clk2 0 - clk n \<le> ttl c2" for fmt fs2 clk2 path dflt placeholders
  proof -
    from w have "clk2 0 - clk n \<le> ttl c1" by (simp add: c2_def cache_set_def)
    then have "cache_get (clk2 0) lang_code c2 = (Inr (Some []), c2)"
      unfolding c2_def by (rule cache_get_fresh)
    with inst have "load_messages fs2 clk2 lang_code False s1 = (Inr [], s1, [])"
      by (rule load_messages_hit)
    then show ?thesis by (simp add: get_def get_async_def resolve_empty_tree)
  qed
  have run1: "load_messages fs clk lang_code force_reload s =
      (Inr [], s1, map Exists (lang_code # fallback_languages s))"
    using run by (simp add: s1_def c2_def)
  from run1 ent ts later show ?thesis
    unfolding cof [symmetric] by blast
qed

theorem exhaustion_served_from_cache_witness:
  "load_messages (map_of []) int ''es'' False initial_handler =
     (Inr [], initial_handler\<lparr>cache_instance := Some (cache_set 1 ''es'' [] (TranslationCache_init 30))\<rparr>,
      [Exists ''es'', Exists ''en'', Exists ''de'']) \<and>
   get plain_formatter (map_of []) int ''es'' (Dotted ''welcome.title'') ''fallback'' []
     (initial_handler\<lparr>cache_instance := Some (cache_set 1 ''es'' [] (TranslationCache_init 30))\<rparr>) =
     (Inr ''fallback'',
      initial_handler\<lparr>cache_instance := Some (cache_set 1 ''es'' [] (TranslationCache_init 30))\<rparr>, [])"
  using exhaustion_served_from_cache [of "''es''" initial_handler "map_of []" False int]
  by (auto simp: initial_handler_def cache_of_def TranslationCache_init_def cache_get_def
        cache_set_def load_messages_def timedelta_minutes_def emit_def
        get_def resolve_def segments_def)


lemma cache_set_keeps_absent:
  "key \<noteq> k \<Longrightarrow> map_of (cache c) k = None \<Longrightarrow> map_of (cache (cache_set now key v c)) k = None"
  by (simp add: cache_set_def update_conv')

lemma load_loop_keeps_absent:
  "map_of (cache c) k = None \<Longrightarrow> lang_code \<noteq> k \<Longrightarrow>
   load_loop fs clk force_reload lang_code codes n c w = (t, c2, w2, evs) \<Longrightarrow>
   map_of (cache c2) k = None"
proof (induction codes arbitrary: n c evs)
  case Nil
  then show ?case by (auto simp: cache_set_keeps_absent)
next
  case (Cons code codes)
  show ?case
  proof (cases "fs code")
    case None
    with Cons.prems(3) obtain evs1 where
      "load_loop fs clk force_reload lang_code codes n c w = (t, c2, w2, evs1)"
      by (cases "load_loop fs clk force_reload lang_code codes n c w") (auto simp: emit_tuple)
    with Cons.IH Cons.prems(1,2) show ?thesis by blast
  next
    case (Some f)
    note f = this
    show ?thesis
    proof (cases "st_mtime f")
      case None
      with f Cons.prems(3) obtain evs1 where
        "load_loop fs clk force_reload lang_code codes n c w = (t, c2, w2, evs1)"
        by (cases "load_loop fs clk force_reload lang_code codes n c w") (auto simp: emit_tuple)
      with Cons.IH Cons.prems(1,2) show ?thesis by blast
    next
      case (Some mtime)
      obtain r n1 c1 where cu: "check_unchanged clk force_reload code mtime n c w = (r, n1, c1)"
        by (cases "check_unchanged clk force_reload code mtime n c w") auto
      from check_unchanged_keeps_absent [OF Cons.prems(1) cu]
      have abs1: "map_of (cache c1) k = None" .
      have rest: "map_of (cache c2) k = None"
        if "load_loop fs clk force_reload lang_code codes n1 c1 w = (t, c2, w2, evs1)" for evs1
        using Cons.IH [OF abs1 Cons.prems(2) that] .
      show ?thesis
      proof (cases r)
        case (Inl e)
        with f Some cu Cons.prems(3) obtain evs1 where
          "load_loop fs clk force_reload lang_code codes n1 c1 w = (t, c2, w2, evs1)"
          by (cases "load_loop fs clk force_reload lang_code codes n1 c1 w")
             (auto simp: emit_tuple)
        then show ?thesis by (rule rest)
      next
        case (Inr hit)
        show ?thesis
        proof (cases hit)
          case (Some cached)
          with Inr f \<open>st_mtime f = Some mtime\<close> cu Cons.prems(3) have "c2 = c1" by auto
          with abs1 show ?thesis by simp
        next
          case None
          show ?thesis
          proof (cases "read_source f")
            case None
            with \<open>hit = None\<close> Inr f \<open>st_mtime f = Some mtime\<close> cu Cons.prems(3) obtain evs1 where
              "load_loop fs clk force_reload lang_code codes n1 c1 w = (t, c2, w2, evs1)"
              by (cases "load_loop fs clk force_reload lang_code codes n1 c1 w")
                 (auto simp: emit_tuple)
            then show ?thesis by (rule rest)
          next
            case (Some data)
            with \<open>hit = None\<close> Inr f \<open>st_mtime f = Some mtime\<close> cu Cons.prems(3)
            have "c2 = cache_set (clk n1) lang_code data c1" by auto
            with abs1 Cons.prems(2) show ?thesis by (simp add: cache_set_keeps_absent)
          qed
        qed
      qed
    qed
  qed
qed


lemma count_emit:
  "load_loop fs clk force_reload lang_code codes n c w = (t, c2, w2, evs1) \<Longrightarrow>
   emit evs0 (load_loop fs clk force_reload lang_code codes n c w) = (t, c2, w2, evs0 @ evs1)"
  by (simp add: emit_tuple)

lemma load_loop_stat_then_open:
  "map_of (cache c) k = None \<Longrightarrow> fs k = Some fk \<Longrightarrow> st_mtime fk = Some mk \<Longrightarrow>
   count_list (snd (snd (snd (load_loop fs clk force_reload lang_code codes n c w)))) (Open k) =
   count_list (snd (snd (snd (load_loop fs clk force_reload lang_code codes n c w)))) (Stat k)"
proof (induction codes arbitrary: n c)
  case Nil
  then show ?case by simp
next
  case (Cons code codes)
  let ?evs = "\<lambda>n c. snd (snd (snd (load_loop fs clk force_reload lang_code codes n c w)))"
  have em: "snd (snd (snd (emit evs0 (load_loop fs clk force_reload lang_code codes n1 c1 w)))) =
              evs0 @ ?evs n1 c1" for evs0 n1 c1
    by (cases "load_loop fs clk force_reload lang_code codes n1 c1 w") (simp add: emit_tuple)
  show ?case
  proof (cases "fs code")
    case None
    with Cons.prems have "code \<noteq> k" by auto
    with None Cons.IH [OF Cons.prems] show ?thesis by (simp add: em)
  next
    case (Some f)
    note f = this
    show ?thesis
    proof (cases "st_mtime f")
      case None
      with f Cons.prems have "code \<noteq> k" by auto
      with None f Cons.IH [OF Cons.prems] show ?thesis by (simp add: em)
    next
      case (Some mtime)
      obtain r n1 c1 where cu: "check_unchanged clk force_reload code mtime n c w = (r, n1, c1)"
        by (cases "check_unchanged clk force_reload code mtime n c w") auto
      from check_unchanged_keeps_absent [OF Cons.prems(1) cu]
      have abs1: "map_of (cache c1) k = None" .
      note ih = Cons.IH [OF abs1 Cons.prems(2,3), of n1]
      show ?thesis
      proof (cases "code = k")
        case True
        from check_unchanged_absent [of force_reload c code clk mtime n w] Cons.prems(1) True cu
        have r: "r = Inr None" by auto
        show ?thesis
          using f Some cu r ih True
          by (cases "read_source f") (simp_all add: em)
      next
        case False
        show ?thesis
        proof (cases r)
          case (Inl e)
          with f Some cu ih False show ?thesis by (simp add: em)
        next
          case (Inr hit)
          with f Some cu ih False show ?thesis
            by (cases hit; cases "read_source f") (simp_all add: em)
        qed
      qed
    qed
  qed
qed



lemma no_entry_initial: "no_entry k initial_handler"
  by (simp add: no_entry_def initial_handler_def cache_of_def TranslationCache_init_def)

lemma no_entry_clear_cache: "no_entry k s \<Longrightarrow> no_entry k (clear_cache lang_code s)"
  by (auto simp: no_entry_def clear_cache_def cache_of_def cache_clear_def delete_conv'
        split: option.splits)

lemma no_entry_settings:
  "no_entry k s \<Longrightarrow> no_entry k (settings fallback_langs default_lang cache_ttl s)"
  by (auto simp: no_entry_def settings_def cache_of_def TranslationCache_init_def update_ttl_def
        Let_def split: option.splits)

lemma no_entry_load_messages:
  assumes "no_entry k s" and "lang_code \<noteq> k"
  shows "no_entry k (fst (snd (load_messages fs clk lang_code force_reload s)))"
proof -
  from assms(1) have a0: "map_of (cache (cache_of s)) k = None" by (simp add: no_entry_def)
  have loop: "no_entry k (s\<lparr>cache_instance := Some c2, file_watchers := w2\<rparr>)"
    if "map_of (cache c) k = None"
      and "load_loop fs clk force_reload lang_code codes n c w = (t, c2, w2, evs)"
    for c codes n w t c2 w2 evs
    using load_loop_keeps_absent [OF that(1) assms(2) that(2)]
    by (simp add: no_entry_def cache_of_def)
  show ?thesis
  proof (cases force_reload)
    case True
    obtain t c2 w2 evs where
      l: "load_loop fs clk force_reload lang_code (lang_code # fallback_languages s) 0 (cache_of s)
            (file_watchers s) = (t, c2, w2, evs)"
      using prod_cases4 by blast
    from loop [OF a0 l] True l show ?thesis by (simp add: load_messages_def)
  next
    case False
    obtain r c1 where g: "cache_get (clk 0) lang_code (cache_of s) = (r, c1)"
      by (cases "cache_get (clk 0) lang_code (cache_of s)") auto
    then have "c1 = snd (cache_get (clk 0) lang_code (cache_of s))" by simp
    with a0 have a1: "map_of (cache c1) k = None" by (simp add: cache_get_keeps_absent)
    then have direct: "no_entry k (s\<lparr>cache_instance := Some c1\<rparr>)"
      by (simp add: no_entry_def cache_of_def)
    obtain t c2 w2 evs where
      l: "load_loop fs clk force_reload lang_code (lang_code # fallback_languages s) 1 c1
            (file_watchers s) = (t, c2, w2, evs)"
      using prod_cases4 by blast
    show ?thesis
    proof (cases r)
      case (Inl e)
      with False g direct show ?thesis by (simp add: load_messages_def)
    next
      case (Inr hit)
      show ?thesis
      proof (cases hit)
        case None
        with Inr False g l loop [OF a1 l] show ?thesis by (simp add: load_messages_def)
      next
        case (Some cached)
        with Inr False g direct show ?thesis by (simp add: load_messages_def)
      qed
    qed
  qed
qed

lemma no_entry_apply:
  "no_entry k s \<Longrightarrow> never_requests k op \<Longrightarrow> no_entry k (apply_handler_op s op)"
  by (cases op) (simp_all add: no_entry_load_messages no_entry_clear_cache no_entry_settings)

lemma no_entry_run:
  "no_entry k s \<Longrightarrow> \<forall>op\<in>set ops. never_requests k op \<Longrightarrow> no_entry k (run_handler ops s)"
  unfolding run_handler_def
  by (induction ops arbitrary: s) (simp_all add: no_entry_apply)

lemma load_messages_stat_then_open:
  assumes "map_of (cache (cache_of s)) k = None" and "fs k = Some fk" and "st_mtime fk = Some mk"
  shows "count_list (snd (snd (load_messages fs clk lang_code force_reload s))) (Open k) =
         count_list (snd (snd (load_messages fs clk lang_code force_reload s))) (Stat k)"
proof -
  have ev: "snd (snd (case r of (t, c, w, evs) \<Rightarrow>
               (Inr t :: py_error + tree, s\<lparr>cache_instance := Some c, file_watchers := w\<rparr>, evs)))
            = snd (snd (snd r))" for r :: "tree \<times> TranslationCache \<times> (string \<times> int) list \<times> io list"
    by (cases r) simp
  show ?thesis
  proof (cases force_reload)
    case True
    with load_loop_stat_then_open [where fs=fs and k=k and c="cache_of s" and clk=clk
        and force_reload=force_reload and lang_code=lang_code
        and codes="lang_code # fallback_languages s" and n=0 and w="file_watchers s", OF assms]
    show ?thesis by (simp add: load_messages_def ev)
  next
    case False
    obtain r c1 where g: "cache_get (clk 0) lang_code (cache_of s) = (r, c1)"
      by (cases "cache_get (clk 0) lang_code (cache_of s)") auto
    then have "c1 = snd (cache_get (clk 0) lang_code (cache_of s))" by simp
    with assms(1) have a1: "map_of (cache c1) k = None" by (simp add: cache_get_keeps_absent)
    from load_loop_stat_then_open [where fs=fs and k=k and c=c1 and clk=clk
        and force_reload=force_reload and lang_code=lang_code
        and codes="lang_code # fallback_languages s" and n=1 and w="file_watchers s",
        OF a1 assms(2,3)] False g
    show ?thesis
      by (cases r; cases "projr r") (simp_all add: load_messages_def ev)
  qed
qed

text \<open>
  Claim C3: take any state reached from the initial handler by calls none of which
  requests the language \<open>code\<close> itself (requests for other languages, cache clearing,
  reconfiguration). The cache then has no entry keyed \<open>code\<close>, so the modification-time
  shortcut for \<open>code\<close> yields nothing whatever the recorded times are; in every request
  for another language each successful \<open>stat\<close> of the source of \<open>code\<close> is followed by
  opening and parsing it again; and the request again leaves no entry keyed \<open>code\<close>.
\<close>

theorem unrequested_candidate_always_reread:
  assumes "\<forall>op\<in>set ops. never_requests code op" and "lang_code \<noteq> code"
  shows "map_of (cache (cache_of (run_handler ops initial_handler))) code = None \<and>
         (\<forall>clk force_reload mtime n.
            fst (check_unchanged clk force_reload code mtime n
                   (cache_of (run_handler ops initial_handler))
                   (file_watchers (run_handler ops initial_handler))) = Inr None) \<and>
         (\<forall>fs clk force_reload f mtime.
            fs code = Some f \<longrightarrow> st_mtime f = Some mtime \<longrightarrow>
            count_list (snd (snd (load_messages fs clk lang_code force_reload
                                    (run_handler ops initial_handler)))) (Open code) =
            count_list (snd (snd (load_messages fs clk lang_code force_reload
                                    (run_handler ops initial_handler)))) (Stat code)) \<and>
         (\<forall>fs clk force_reload.
            map_of (cache (cache_of (fst (snd (load_messages fs clk lang_code force_reload
                                    (run_handler ops initial_handler)))))) code = None)"
proof -
  let ?s = "run_handler ops initial_handler"
  have ne: "no_entry code ?s"
    using no_entry_initial assms(1) by (rule no_entry_run)
  then have a: "map_of (cache (cache_of ?s)) code = None" by (simp add: no_entry_def)
  have b: "fst (check_unchanged clk force_reload code mtime n (cache_of ?s) (file_watchers ?s))
             = Inr None" for clk force_reload mtime n
    using check_unchanged_absent [of force_reload "cache_of ?s" code clk mtime n "file_watchers ?s"] a
    by auto
  have c: "count_list (snd (snd (load_messages fs clk lang_code force_reload ?s))) (Open code) =
           count_list (snd (snd (load_messages fs clk lang_code force_reload ?s))) (Stat code)"
    if "fs code = Some f" "st_mtime f = Some mtime" for fs clk force_reload f mtime
    using load_messages_stat_then_open [where fs=fs and k=code and s="?s", OF a that] .
  have d: "map_of (cache (cache_of (fst (snd (load_messages fs clk lang_code force_reload ?s)))))
             code = None" for fs clk force_reload
    using no_entry_load_messages [OF ne assms(2)] by (simp add: no_entry_def)
  from a b c d show ?thesis by blast
qed

theorem unrequested_candidate_always_reread_witness:
  "snd (snd (load_messages
     (map_of [(''en'', \<lparr>st_mtime = Some 7, content = Parsed (YDict [(''greeting'', YStr ''Hello'')])\<rparr>)])
     int ''es'' True
     (run_handler [Load_messages
        (map_of [(''en'', \<lparr>st_mtime = Some 7, content = Parsed (YDict [(''greeting'', YStr ''Hello'')])\<rparr>)])
        int ''es'' False] initial_handler)))
   = [Exists ''es'', Exists ''en'', Stat ''en'', Open ''en''] \<and>
   map_of (cache (cache_of (run_handler [Load_messages
        (map_of [(''en'', \<lparr>st_mtime = Some 7, content = Parsed (YDict [(''greeting'', YStr ''Hello'')])\<rparr>)])
        int ''es'' False] initial_handler))) ''en'' = None"
  using unrequested_candidate_always_reread [of "[Load_messages
        (map_of [(''en'', \<lparr>st_mtime = Some 7, content = Parsed (YDict [(''greeting'', YStr ''Hello'')])\<rparr>)])
        int ''es'' False]" "''en''" "''es''"]
  by (simp add: run_handler_def load_messages_def initial_handler_def cache_of_def
        TranslationCache_init_def cache_get_def cache_set_def check_unchanged_def
        read_source_def emit_def timedelta_minutes_def)


lemma navigate_value_at: "navigate v ks = Some x \<Longrightarrow> value_at v ks = Some x"
proof (induction ks arbitrary: v)
  case Nil
  then show ?case by simp
next
  case (Cons k ks)
  then show ?case
    by (cases v) (auto split: option.splits if_splits)
qed

lemma value_at_navigate_str:
  "value_at v ks = Some (YStr t) \<Longrightarrow> navigate v ks = Some (YStr t)"
proof (induction ks arbitrary: v)
  case Nil
  then show ?case by simp
next
  case (Cons k ks)
  show ?case
  proof (cases v)
    case (YDict d)
    with Cons.prems obtain v1 where v1: "map_of d k = Some v1" "value_at v1 ks = Some (YStr t)"
      by (auto split: option.splits)
    have "v1 \<noteq> YNone"
    proof
      assume "v1 = YNone"
      with v1(2) show False by (cases ks) simp_all
    qed
    with YDict v1 Cons.IH [OF v1(2)] show ?thesis by simp
  qed (use Cons.prems in simp_all)
qed

lemma value_at_append:
  "value_at v (ps @ qs) = (case value_at v ps of None \<Rightarrow> None | Some x \<Rightarrow> value_at x qs)"
proof (induction ps arbitrary: v)
  case Nil
  then show ?case by simp
next
  case (Cons p ps)
  then show ?case by (cases v) (simp_all split: option.splits)
qed

lemma resolve_not_string:
  assumes "\<forall>t. value_at (YDict messages) path \<noteq> Some (YStr t)"
  shows "resolve fmt messages path dflt placeholders = dflt"
proof (cases "navigate (YDict messages) path")
  case None
  then show ?thesis by (simp add: resolve_def)
next
  case (Some x)
  then have "value_at (YDict messages) path = Some x" by (rule navigate_value_at)
  with assms have "\<forall>t. x \<noteq> YStr t" by auto
  with Some show ?thesis by (cases x) (simp_all add: resolve_def)
qed

lemma resolve_string:
  assumes "value_at (YDict messages) path = Some (YStr template)"
  shows "resolve fmt messages path dflt placeholders =
           (case fmt template placeholders of Inr text \<Rightarrow> text | Inl e \<Rightarrow> template)"
  using value_at_navigate_str [OF assms] by (simp add: resolve_def)

lemma get_async_eq_get: "get_async = get"
  by (intro ext) (simp add: get_async_def get_def)

text \<open>
  Claim C5: for every tree that \<open>load_messages\<close> returns, \<open>get\<close> and \<open>get_async\<close> return
  the caller's default whenever a segment of the path is absent from the mapping reached
  so far, or the value reached before a further segment is not a mapping, or the value
  reached by the full path is not a string.
\<close>

theorem default_on_failed_navigation:
  assumes load: "load_messages fs clk lang_code False s = (Inr messages, s1, evs)"
    and fails:
      "(\<exists>ps k rest d. segments path = ps @ k # rest \<and>
          value_at (YDict messages) ps = Some (YDict d) \<and> map_of d k = None) \<or>
       (\<exists>ps k rest v. segments path = ps @ k # rest \<and>
          value_at (YDict messages) ps = Some v \<and> (\<forall>d. v \<noteq> YDict d)) \<or>
       (\<exists>v. value_at (YDict messages) (segments path) = Some v \<and> (\<forall>t. v \<noteq> YStr t))"
  shows "get fmt fs clk lang_code path dflt placeholders s = (Inr dflt, s1, evs) \<and>
         get_async fmt fs clk lang_code path dflt placeholders s = (Inr dflt, s1, evs)"
proof -
  have "\<forall>t. value_at (YDict messages) (segments path) \<noteq> Some (YStr t)"
    using fails
  proof (elim disjE exE conjE)
    fix ps k rest d
    assume "segments path = ps @ k # rest" "value_at (YDict messages) ps = Some (YDict d)"
      "map_of d k = None"
    then show ?thesis by (simp add: value_at_append)
  next
    fix ps k rest v
    assume "segments path = ps @ k # rest" "value_at (YDict messages) ps = Some v"
      "\<forall>d. v \<noteq> YDict d"
    then show ?thesis by (cases v) (simp_all add: value_at_append)
  next
    fix v
    assume "value_at (YDict messages) (segments path) = Some v" "\<forall>t. v \<noteq> YStr t"
    then show ?thesis by simp
  qed
  then have "resolve fmt messages (segments path) dflt placeholders = dflt"
    by (rule resolve_not_string)
  with load show ?thesis by (simp add: get_def get_async_def)
qed

theorem default_on_failed_navigation_witness:
  "get plain_formatter
     (map_of [(''en'', \<lparr>st_mtime = Some 7, content = Parsed (YDict [(''a'', YDict [(''b'', YStr ''text'')])])\<rparr>)])
     int ''en'' (Dotted ''a.b.c'') ''X'' [] initial_handler =
   (Inr ''X'',
    initial_handler\<lparr>cache_instance :=
        Some (cache_set 1 ''en'' [(''a'', YDict [(''b'', YStr ''text'')])] (TranslationCache_init 30)),
      file_watchers := [(''en'', 7)]\<rparr>,
    [Exists ''en'', Stat ''en'', Open ''en''])"
proof -
  have load: "load_messages
     (map_of [(''en'', \<lparr>st_mtime = Some 7, content = Parsed (YDict [(''a'', YDict [(''b'', YStr ''text'')])])\<rparr>)])
     int ''en'' False initial_handler =
     (Inr [(''a'', YDict [(''b'', YStr ''text'')])],
      initial_handler\<lparr>cache_instance :=
        Some (cache_set 1 ''en'' [(''a'', YDict [(''b'', YStr ''text'')])] (TranslationCache_init 30)),
        file_watchers := [(''en'', 7)]\<rparr>,
      [Exists ''en'', Stat ''en'', Open ''en''])"
    by (simp add: load_messages_def initial_handler_def cache_of_def TranslationCache_init_def
          cache_get_def check_unchanged_def read_source_def)
  have seg: "segments (Dotted ''a.b.c'') = [''a'', ''b''] @ ''c'' # []"
    by (simp add: segments_def)
  have at: "value_at (YDict [(''a'', YDict [(''b'', YStr ''text'')])]) [''a'', ''b''] = Some (YStr ''text'')"
    by simp
  from default_on_failed_navigation [OF load, of "Dotted ''a.b.c''" plain_formatter "''X''" "[]"]
    seg at
  show ?thesis by blast
qed


lemma out_Some: "out lit (Some r) = Some (case r of Inl e \<Rightarrow> Inl e | Inr rest \<Rightarrow> Inr (lit @ rest))"
  by (simp add: out_def split: sum.splits)

lemma out_append: "out (a @ b) r = out a (out b r)"
  by (simp add: out_def split: option.splits sum.splits)

lemma scan_escape:
  "format_scan kw None (escape lit @ rest) = out lit (format_scan kw None rest)"
proof (induction lit)
  case Nil
  show ?case by (simp add: out_def split: option.splits sum.splits)
next
  case (Cons c cs)
  have "out (c # cs) r = out [c] (out cs r)" for r
    using out_append [of "[c]" cs r] by simp
  with Cons show ?case by simp
qed

lemma field_char_not_brace: "field_char c \<Longrightarrow> c \<noteq> CHR ''}'' \<and> c \<noteq> CHR ''{''"
  by (auto simp: field_char_def)

lemma scan_field_name:
  "list_all field_char name \<Longrightarrow>
   format_scan kw (Some acc) (name @ CHR ''}'' # rest) =
   format_scan kw (Some (acc @ name)) (CHR ''}'' # rest)"
proof (induction name arbitrary: acc)
  case Nil
  show ?case by simp
next
  case (Cons c cs)
  then have "field_char c" "list_all field_char cs" by simp_all
  with Cons.IH [of "acc @ [c]"] field_char_not_brace [of c] show ?case by simp
qed

lemma scan_field:
  assumes "plain_name name"
  shows "format_scan kw None (''{'' @ name @ ''}'' @ rest) =
           (case map_of kw name of
              None \<Rightarrow> Some (Inl (KeyError name))
            | Some v \<Rightarrow> out v (format_scan kw None rest))"
proof -
  from assms obtain c cs where n: "name = c # cs" and fc: "list_all field_char name"
    and nd: "\<not> all_digits name"
    by (cases name) (auto simp: plain_name_def)
  from fc n have "c \<noteq> CHR ''{''" using field_char_not_brace [of c] by simp
  then have "format_scan kw None (''{'' @ name @ ''}'' @ rest) =
        format_scan kw (Some []) (name @ CHR ''}'' # rest)"
    by (simp add: n)
  also have "\<dots> = format_scan kw (Some name) (CHR ''}'' # rest)"
    using scan_field_name [OF fc, of kw "[]" rest] by simp
  also have "\<dots> = (case map_of kw name of
              None \<Rightarrow> Some (Inl (KeyError name))
            | Some v \<Rightarrow> out v (format_scan kw None rest))"
    using assms by (simp add: plain_name_def)
  finally show ?thesis .
qed

lemma str_format_plain_template:
  "list_all plain_name (field_names ps) \<Longrightarrow>
   str_format_plain (template_of ps) kw = Some (substitute kw ps)"
  unfolding str_format_plain_def
proof (induction ps rule: template_of.induct)
  case 1
  show ?case by simp
next
  case (2 lit ps)
  then show ?case by (simp add: scan_escape out_Some)
next
  case (3 name ps)
  then have pn: "plain_name name" and ih: "format_scan kw None (template_of ps) = Some (substitute kw ps)"
    by simp_all
  show ?case
    using scan_field [OF pn, of kw "template_of ps"] ih
    by (simp add: out_Some split: option.splits)
qed

lemma substitute_all_supplied:
  "\<forall>name\<in>set (field_names ps). map_of kw name \<noteq> None \<Longrightarrow> \<exists>text. substitute kw ps = Inr text"
  by (induction ps rule: template_of.induct) auto

lemma substitute_missing:
  "\<exists>name\<in>set (field_names ps). map_of kw name = None \<Longrightarrow> \<exists>name. substitute kw ps = Inl (KeyError name)"
proof (induction ps rule: template_of.induct)
  case 1
  then show ?case by simp
next
  case (2 lit ps)
  then obtain name where "substitute kw ps = Inl (KeyError name)" by auto
  then show ?case by simp
next
  case (3 name ps)
  show ?case
  proof (cases "map_of kw name")
    case None
    then show ?thesis by simp
  next
    case (Some v)
    with 3 obtain name1 where "substitute kw ps = Inl (KeyError name1)" by auto
    with Some show ?thesis by simp
  qed
qed

lemma formats_plain_plain_formatter: "formats_plain plain_formatter"
  by (simp add: formats_plain_def plain_formatter_def)

text \<open>
  Claim C6: when the path leads to a string template, \<open>get\<close> and \<open>get_async\<close> return the
  formatted text if formatting succeeds and the unformatted template (never the default)
  if formatting raises, whatever the exception. For the plain templates: if every
  referenced name is supplied the result is the template with each field replaced by
  its value; if a referenced name is missing the result is the template itself.
  With \<open>"Hello, {name}!"\<close> the results are \<open>"Hello, Alice!"\<close> for \<open>name = "Alice"\<close> and the
  template itself for no placeholders, as the instance after the theorem shows.
\<close>

theorem placeholders_formatted_or_template_kept:
  assumes load: "load_messages fs clk lang_code False s = (Inr messages, s1, evs)"
    and leaf: "value_at (YDict messages) (segments path) = Some (YStr template)"
  shows "(\<forall>text. fmt template placeholders = Inr text \<longrightarrow>
            get fmt fs clk lang_code path dflt placeholders s = (Inr text, s1, evs) \<and>
            get_async fmt fs clk lang_code path dflt placeholders s = (Inr text, s1, evs)) \<and>
         (\<forall>e. fmt template placeholders = Inl e \<longrightarrow>
            get fmt fs clk lang_code path dflt placeholders s = (Inr template, s1, evs) \<and>
            get_async fmt fs clk lang_code path dflt placeholders s = (Inr template, s1, evs)) \<and>
         (\<forall>ps. formats_plain fmt \<and> template = template_of ps \<and>
                list_all plain_name (field_names ps) \<longrightarrow>
            ((\<forall>name\<in>set (field_names ps). map_of placeholders name \<noteq> None) \<longrightarrow>
               (\<exists>text. substitute placeholders ps = Inr text \<and>
                  get fmt fs clk lang_code path dflt placeholders s = (Inr text, s1, evs) \<and>
                  get_async fmt fs clk lang_code path dflt placeholders s = (Inr text, s1, evs))) \<and>
            ((\<exists>name\<in>set (field_names ps). map_of placeholders name = None) \<longrightarrow>
               get fmt fs clk lang_code path dflt placeholders s = (Inr template, s1, evs) \<and>
               get_async fmt fs clk lang_code path dflt placeholders s = (Inr template, s1, evs)))"
proof -
  have g: "get fmt fs clk lang_code path dflt placeholders s =
             (Inr (case fmt template placeholders of Inr text \<Rightarrow> text | Inl e \<Rightarrow> template), s1, evs)"
    using load resolve_string [OF leaf] by (simp add: get_def)
  have a: "get_async fmt fs clk lang_code path dflt placeholders s =
             get fmt fs clk lang_code path dflt placeholders s"
    by (simp add: get_async_eq_get)
  have 1: "get fmt fs clk lang_code path dflt placeholders s = (Inr res, s1, evs)"
    if "fmt template placeholders = Inr res" for res
    using g that by simp
  have 2: "get fmt fs clk lang_code path dflt placeholders s = (Inr template, s1, evs)"
    if "fmt template placeholders = Inl e" for e
    using g that by simp
  have 3: "\<exists>text. substitute placeholders ps = Inr text \<and>
           get fmt fs clk lang_code path dflt placeholders s = (Inr text, s1, evs)"
    if "formats_plain fmt" "template = template_of ps" "list_all plain_name (field_names ps)"
      "\<forall>name\<in>set (field_names ps). map_of placeholders name \<noteq> None" for ps
  proof -
    from substitute_all_supplied [OF that(4)] obtain res where
      t: "substitute placeholders ps = Inr res" by blast
    from that(1) str_format_plain_template [OF that(3), of placeholders] t that(2)
    have "fmt template placeholders = Inr res" by (simp add: formats_plain_def)
    with 1 t show ?thesis by blast
  qed
  have 4: "get fmt fs clk lang_code path dflt placeholders s = (Inr template, s1, evs)"
    if "formats_plain fmt" "template = template_of ps" "list_all plain_name (field_names ps)"
      "\<exists>name\<in>set (field_names ps). map_of placeholders name = None" for ps
  proof -
    from substitute_missing [OF that(4)] obtain name where
      t: "substitute placeholders ps = Inl (KeyError name)" by blast
    from that(1) str_format_plain_template [OF that(3), of placeholders] t that(2)
    have "fmt template placeholders = Inl (KeyError name)" by (simp add: formats_plain_def)
    with 2 show ?thesis by blast
  qed
  from 1 2 3 4 show ?thesis unfolding a by blast
qed


theorem placeholders_formatted_or_template_kept_witness:
  "get plain_formatter
     (map_of [(''en'', \<lparr>st_mtime = Some 7, content = Parsed (YDict [(''greeting'', YStr ''Hello, {name}!'')])\<rparr>)])
     int ''en'' (Dotted ''greeting'') ''D'' [(''name'', ''Alice'')] initial_handler =
   (Inr ''Hello, Alice!'',
    initial_handler\<lparr>cache_instance :=
        Some (cache_set 1 ''en'' [(''greeting'', YStr ''Hello, {name}!'')] (TranslationCache_init 30)),
      file_watchers := [(''en'', 7)]\<rparr>,
    [Exists ''en'', Stat ''en'', Open ''en'']) \<and>
   get plain_formatter
     (map_of [(''en'', \<lparr>st_mtime = Some 7, content = Parsed (YDict [(''greeting'', YStr ''Hello, {name}!'')])\<rparr>)])
     int ''en'' (Dotted ''greeting'') ''D'' [] initial_handler =
   (Inr ''Hello, {name}!'',
    initial_handler\<lparr>cache_instance :=
        Some (cache_set 1 ''en'' [(''greeting'', YStr ''Hello, {name}!'')] (TranslationCache_init 30)),
      file_watchers := [(''en'', 7)]\<rparr>,
    [Exists ''en'', Stat ''en'', Open ''en''])"
proof -
  let ?ps = "[Lit ''Hello, '', Field ''name'', Lit ''!'']"
  have load: "load_messages
     (map_of [(''en'', \<lparr>st_mtime = Some 7, content = Parsed (YDict [(''greeting'', YStr ''Hello, {name}!'')])\<rparr>)])
     int ''en'' False initial_handler =
     (Inr [(''greeting'', YStr ''Hello, {name}!'')],
      initial_handler\<lparr>cache_instance :=
        Some (cache_set 1 ''en'' [(''greeting'', YStr ''Hello, {name}!'')] (TranslationCache_init 30)),
        file_watchers := [(''en'', 7)]\<rparr>,
      [Exists ''en'', Stat ''en'', Open ''en''])"
    by (simp add: load_messages_def initial_handler_def cache_of_def TranslationCache_init_def
          cache_get_def check_unchanged_def read_source_def)
  have leaf: "value_at (YDict [(''greeting'', YStr ''Hello, {name}!'')]) (segments (Dotted ''greeting''))
                = Some (YStr ''Hello, {name}!'')"
    by (simp add: segments_def)
  have tmpl: "''Hello, {name}!'' = template_of ?ps" by simp
  have names: "list_all plain_name (field_names ?ps)"
    by (simp add: plain_name_def field_char_def all_digits_def)
  have sub: "substitute [(''name'', ''Alice'')] ?ps = Inr ''Hello, Alice!''" by simp
  have all: "\<forall>name\<in>set (field_names ?ps). map_of [(''name'', ''Alice'')] name \<noteq> None" by simp
  have some: "\<exists>name\<in>set (field_names ?ps). map_of ([] :: (string \<times> string) list) name = None"
    by simp
  from placeholders_formatted_or_template_kept [OF load leaf, of plain_formatter
      "[(''name'', ''Alice'')]" "''D''"]
    formats_plain_plain_formatter tmpl names all sub
  have 1: "get plain_formatter
     (map_of [(''en'', \<lparr>st_mtime = Some 7, content = Parsed (YDict [(''greeting'', YStr ''Hello, {name}!'')])\<rparr>)])
     int ''en'' (Dotted ''greeting'') ''D'' [(''name'', ''Alice'')] initial_handler =
   (Inr ''Hello, Alice!'',
    initial_handler\<lparr>cache_instance :=
        Some (cache_set 1 ''en'' [(''greeting'', YStr ''Hello, {name}!'')] (TranslationCache_init 30)),
      file_watchers := [(''en'', 7)]\<rparr>,
    [Exists ''en'', Stat ''en'', Open ''en''])"
    by (metis sum.inject(2))
  from placeholders_formatted_or_template_kept [OF load leaf, of plain_formatter "[]" "''D''"]
    formats_plain_plain_formatter tmpl names some
  have 2: "get plain_formatter
     (map_of [(''en'', \<lparr>st_mtime = Some 7, content = Parsed (YDict [(''greeting'', YStr ''Hello, {name}!'')])\<rparr>)])
     int ''en'' (Dotted ''greeting'') ''D'' [] initial_handler =
   (Inr ''Hello, {name}!'',
    initial_handler\<lparr>cache_instance :=
        Some (cache_set 1 ''en'' [(''greeting'', YStr ''Hello, {name}!'')] (TranslationCache_init 30)),
      file_watchers := [(''en'', 7)]\<rparr>,
    [Exists ''en'', Stat ''en'', Open ''en''])"
    by blast
  from 1 2 show ?thesis by blast
qed


lemma map_of_rev_Cons: "map_of (rev (x # xs)) = map_of [x] ++ map_of (rev xs)"
  by (simp add: map_of_append)

lemma fst_append_events:
  "fst (case p of (res, s2, evs2) \<Rightarrow> (res, s2, evs @ evs2)) = fst p"
  by (cases p) simp

lemma collect_translations_results:
  "map_of (fst (collect_translations fmt fs clks path langs results s)) =
     map_of results ++ map_of (rev (successes (resolutions fmt fs clks path langs s)))"
proof (induction langs arbitrary: clks results s)
  case Nil
  show ?case by simp
next
  case (Cons lang langs)
  obtain r s1 evs where g: "get_async fmt fs (clks 0) lang path [] [] s = (r, s1, evs)"
    using prod_cases3 by blast
  let ?rest = "resolutions fmt fs (\<lambda>i. clks (Suc i)) path langs s1"
  have ih: "map_of (fst (collect_translations fmt fs (\<lambda>i. clks (Suc i)) path langs acc s1)) =
              map_of acc ++ map_of (rev (successes ?rest))" for acc
    by (rule Cons.IH)
  show ?case
  proof (cases r)
    case (Inl e)
    with g ih [of results] show ?thesis by (simp add: fst_append_events)
  next
    case (Inr translation)
    show ?thesis
    proof (cases "translation = []")
      case True
      with Inr g ih [of results] show ?thesis by (simp add: fst_append_events)
    next
      case False
      have "map_of (AList.update lang translation results) ++ map_of (rev (successes ?rest))
            = map_of results ++ (map_of [(lang, translation)] ++ map_of (rev (successes ?rest)))"
        by (simp add: update_conv' map_add_upd_left fun_eq_iff map_add_def split: option.splits)
      with False Inr g ih [of "AList.update lang translation results"] show ?thesis
        by (simp add: map_of_append fst_append_events)
    qed
  qed
qed


lemma set_successes:
  "set (successes rs) = {(lang, res). (lang, Inr res) \<in> set rs \<and> res \<noteq> []}"
proof (induction rs rule: successes.induct)
  case 1
  show ?case by simp
next
  case (2 lang e rs)
  then show ?case by auto
next
  case (3 lang res rs)
  then show ?case by auto
qed

lemma fst_successes: "set (map fst (successes rs)) \<subseteq> set (map fst rs)"
  by (induction rs rule: successes.induct) auto

lemma distinct_successes: "distinct (map fst rs) \<Longrightarrow> distinct (map fst (successes rs))"
proof (induction rs rule: successes.induct)
  case 1
  show ?case by simp
next
  case (2 lang e rs)
  then show ?case by simp
next
  case (3 lang res rs)
  then show ?case using fst_successes [of rs] by auto
qed

lemma map_fst_resolutions: "map fst (resolutions fmt fs clks path langs s) = langs"
  by (induction langs arbitrary: clks s) simp_all

text \<open>
  Claim C7: \<open>get_all_translations\<close> always returns a result (an exception of a single
  language's resolution is caught and the language is skipped). The result maps a
  language code to a string exactly when a resolution of that language in the list
  produced a non-empty string; it then holds the string of the last such resolution,
  which for a list without repetitions is the string of the language's only resolution.
  Languages whose resolution raises or yields the empty string are left out.
\<close>

theorem get_all_translations_collects_successes:
  "\<exists>results s1 evs.
     get_all_translations fmt fs clks available path langs s = (Inr results, s1, evs) \<and>
     map_of results =
       map_of (rev (successes (resolutions fmt fs clks path
                      (case langs of None \<Rightarrow> available | Some ls \<Rightarrow> ls) s))) \<and>
     (\<forall>lang. lang \<in> fst ` set results \<longleftrightarrow>
        (\<exists>res. res \<noteq> [] \<and>
           (lang, Inr res) \<in> set (resolutions fmt fs clks path
                      (case langs of None \<Rightarrow> available | Some ls \<Rightarrow> ls) s))) \<and>
     (distinct (case langs of None \<Rightarrow> available | Some ls \<Rightarrow> ls) \<longrightarrow>
        (\<forall>lang res. map_of results lang = Some res \<longleftrightarrow>
           res \<noteq> [] \<and>
           (lang, Inr res) \<in> set (resolutions fmt fs clks path
                      (case langs of None \<Rightarrow> available | Some ls \<Rightarrow> ls) s)))"
proof -
  define ls where "ls = (case langs of None \<Rightarrow> available | Some ls \<Rightarrow> ls)"
  define rs where "rs = resolutions fmt fs clks path ls s"
  obtain results s1 evs where c: "collect_translations fmt fs clks path ls [] s = (results, s1, evs)"
    using prod_cases3 by blast
  then have run: "get_all_translations fmt fs clks available path langs s = (Inr results, s1, evs)"
    by (simp add: get_all_translations_def ls_def)
  from collect_translations_results [of fmt fs clks path ls "[]" s] c
  have m: "map_of results = map_of (rev (successes rs))" by (simp add: rs_def)
  have "fst ` set results = dom (map_of results)" by (simp add: dom_map_of_conv_image_fst)
  also have "\<dots> = fst ` set (successes rs)" by (simp add: m dom_map_of_conv_image_fst)
  finally have dom: "fst ` set results = fst ` set (successes rs)" .
  have keys: "lang \<in> fst ` set results \<longleftrightarrow>
        (\<exists>res. res \<noteq> [] \<and> (lang, Inr res) \<in> set rs)" for lang
  proof -
    have "lang \<in> fst ` set (successes rs) \<longleftrightarrow> (\<exists>res. (lang, res) \<in> set (successes rs))"
      by force
    also have "\<dots> \<longleftrightarrow> (\<exists>res. res \<noteq> [] \<and> (lang, Inr res) \<in> set rs)"
      unfolding set_successes by blast
    finally show ?thesis unfolding dom .
  qed
  have vals: "map_of results lang = Some res \<longleftrightarrow> res \<noteq> [] \<and> (lang, Inr res) \<in> set rs"
    if "distinct ls" for lang res
  proof -
    from that have "distinct (map fst rs)" by (simp add: rs_def map_fst_resolutions)
    then have "distinct (map fst (successes rs))" by (rule distinct_successes)
    moreover have "map fst (rev (successes rs)) = rev (map fst (successes rs))"
      by (simp add: rev_map)
    ultimately have "distinct (map fst (rev (successes rs)))" by simp
    then have "map_of (rev (successes rs)) lang = Some res \<longleftrightarrow> (lang, res) \<in> set (rev (successes rs))"
      by (rule map_of_eq_Some_iff)
    then show ?thesis by (auto simp: m set_successes)
  qed
  from keys have keys1: "\<forall>lang. lang \<in> fst ` set results \<longleftrightarrow>
        (\<exists>res. res \<noteq> [] \<and> (lang, Inr res) \<in> set rs)"
    by (intro allI)
  from vals have vals1: "distinct ls \<longrightarrow>
        (\<forall>lang res. map_of results lang = Some res \<longleftrightarrow>
           res \<noteq> [] \<and> (lang, Inr res) \<in> set rs)"
    by (intro impI allI)
  from run m keys1 vals1 have all4:
    "get_all_translations fmt fs clks available path langs s = (Inr results, s1, evs) \<and>
     map_of results = map_of (rev (successes rs)) \<and>
     (\<forall>lang. lang \<in> fst ` set results \<longleftrightarrow>
        (\<exists>res. res \<noteq> [] \<and> (lang, Inr res) \<in> set rs)) \<and>
     (distinct ls \<longrightarrow>
        (\<forall>lang res. map_of results lang = Some res \<longleftrightarrow>
           res \<noteq> [] \<and> (lang, Inr res) \<in> set rs))"
    by - (intro conjI; assumption)
  show ?thesis
    unfolding ls_def [symmetric] rs_def [symmetric]
    using all4 by - (intro exI, assumption)
qed



theorem get_all_translations_collects_successes_witness:
  "get_all_translations plain_formatter
     (map_of [(''en'', \<lparr>st_mtime = Some 7, content = Parsed (YDict [(''name'', YStr ''English'')])\<rparr>),
              (''de'', \<lparr>st_mtime = Some 8, content = Parsed (YDict [(''name'', YStr ''Deutsch'')])\<rparr>),
              (''fr'', \<lparr>st_mtime = Some 9, content = YAMLError\<rparr>)])
     (\<lambda>i. int) [] (Dotted ''name'') (Some [''en'', ''fr'', ''de''])
     (initial_handler\<lparr>fallback_languages := []\<rparr>) =
   (Inr [(''en'', ''English''), (''de'', ''Deutsch'')],
    initial_handler\<lparr>fallback_languages := [],
      cache_instance := Some \<lparr>cache = [(''en'', [(''name'', YStr ''English'')]), (''fr'', []),
                                       (''de'', [(''name'', YStr ''Deutsch'')])],
                              timestamps = [(''en'', 1), (''fr'', 1), (''de'', 1)],
                              ttl = 1800000000\<rparr>,
      file_watchers := [(''en'', 7), (''de'', 8)]\<rparr>,
    [Exists ''en'', Stat ''en'', Open ''en'', Exists ''fr'', Stat ''fr'', Open ''fr'',
     Exists ''de'', Stat ''de'', Open ''de''])"
proof -
  have run: "get_all_translations plain_formatter
     (map_of [(''en'', \<lparr>st_mtime = Some 7, content = Parsed (YDict [(''name'', YStr ''English'')])\<rparr>),
              (''de'', \<lparr>st_mtime = Some 8, content = Parsed (YDict [(''name'', YStr ''Deutsch'')])\<rparr>),
              (''fr'', \<lparr>st_mtime = Some 9, content = YAMLError\<rparr>)])
     (\<lambda>i. int) [] (Dotted ''name'') (Some [''en'', ''fr'', ''de''])
     (initial_handler\<lparr>fallback_languages := []\<rparr>) =
   (Inr [(''en'', ''English''), (''de'', ''Deutsch'')],
    initial_handler\<lparr>fallback_languages := [],
      cache_instance := Some \<lparr>cache = [(''en'', [(''name'', YStr ''English'')]), (''fr'', []),
                                       (''de'', [(''name'', YStr ''Deutsch'')])],
                              timestamps = [(''en'', 1), (''fr'', 1), (''de'', 1)],
                              ttl = 1800000000\<rparr>,
      file_watchers := [(''en'', 7), (''de'', 8)]\<rparr>,
    [Exists ''en'', Stat ''en'', Open ''en'', Exists ''fr'', Stat ''fr'', Open ''fr'',
     Exists ''de'', Stat ''de'', Open ''de''])"
    by code_simp
  from get_all_translations_collects_successes [of plain_formatter
     "map_of [(''en'', \<lparr>st_mtime = Some 7, content = Parsed (YDict [(''name'', YStr ''English'')])\<rparr>),
              (''de'', \<lparr>st_mtime = Some 8, content = Parsed (YDict [(''name'', YStr ''Deutsch'')])\<rparr>),
              (''fr'', \<lparr>st_mtime = Some 9, content = YAMLError\<rparr>)]"
     "\<lambda>i. int" "[]" "Dotted ''name''" "Some [''en'', ''fr'', ''de'']"
     "initial_handler\<lparr>fallback_languages := []\<rparr>"]
  show ?thesis by (simp only: run)
qed


lemma leaf_paths_nonempty: "p \<in> leaf_paths d \<Longrightarrow> p \<noteq> []"
  by (induction d arbitrary: p rule: leaf_paths.induct) (auto split: yaml.splits)

lemma dot_join_Cons: "p \<noteq> [] \<Longrightarrow> dot_join (k # p) = k @ ''.'' @ dot_join p"
  by (cases p) simp_all

lemma dot_join_image:
  "(\<lambda>p. f (dot_join p)) ` ((\<lambda>p. k # p) ` leaf_paths sub) =
   (\<lambda>p. f (k @ ''.'' @ dot_join p)) ` leaf_paths sub"
proof -
  have "(\<lambda>p. f (dot_join p)) ` ((\<lambda>p. k # p) ` leaf_paths sub) =
        (\<lambda>p. f (dot_join (k # p))) ` leaf_paths sub"
    by (simp add: image_image)
  also have "\<dots> = (\<lambda>p. f (k @ ''.'' @ dot_join p)) ` leaf_paths sub"
    by (rule image_cong) (simp_all add: leaf_paths_nonempty dot_join_Cons)
  finally show ?thesis .
qed

lemma get_all_keys_prefixed:
  "prefix \<noteq> [] \<Longrightarrow>
   get_all_keys d prefix = (\<lambda>p. prefix @ ''.'' @ dot_join p) ` leaf_paths d"
proof (induction d prefix rule: get_all_keys.induct)
  case (1 prefix)
  show ?case by simp
next
  case (2 k v d prefix)
  from 2 have rest: "get_all_keys d prefix = (\<lambda>p. prefix @ ''.'' @ dot_join p) ` leaf_paths d"
    by simp
  show ?case
  proof (cases v)
    case (YDict sub)
    with 2 have "get_all_keys sub (prefix @ ''.'' @ k) =
                   (\<lambda>p. (prefix @ ''.'' @ k) @ ''.'' @ dot_join p) ` leaf_paths sub"
      by simp
    also have "\<dots> = (\<lambda>p. prefix @ ''.'' @ dot_join p) ` ((\<lambda>p. k # p) ` leaf_paths sub)"
      using dot_join_image [of "\<lambda>t. prefix @ ''.'' @ t" k sub] by simp
    finally show ?thesis using YDict 2(3) rest by (simp add: image_Un)
  qed (use 2(3) rest in simp_all)
qed

lemma get_all_keys_top:
  "no_empty_section d \<Longrightarrow> get_all_keys d [] = dot_join ` leaf_paths d"
proof (induction d)
  case Nil
  show ?case by simp
next
  case (Cons kv d)
  obtain k v where kv: "kv = (k, v)" by (cases kv)
  from Cons kv have rest: "get_all_keys d [] = dot_join ` leaf_paths d"
    by (simp add: no_empty_section_def)
  show ?case
  proof (cases v)
    case (YDict sub)
    with Cons.prems kv have "k \<noteq> []" by (auto simp: no_empty_section_def)
    then have "get_all_keys sub k = (\<lambda>p. k @ ''.'' @ dot_join p) ` leaf_paths sub"
      by (rule get_all_keys_prefixed)
    also have "\<dots> = dot_join ` ((\<lambda>p. k # p) ` leaf_paths sub)"
      using dot_join_image [of "\<lambda>t. t" k sub] by simp
    finally show ?thesis using YDict kv rest by (simp add: image_Un)
  qed (use kv rest in simp_all)
qed

lemma load_messages_forced:
  "\<exists>t s1 evs. load_messages fs clk lang_code True s = (Inr t, s1, evs)"
proof -
  obtain t c w evs where
    "load_loop fs clk True lang_code (lang_code # fallback_languages s) 0 (cache_of s)
       (file_watchers s) = (t, c, w, evs)"
    using prod_cases4 by blast
  then show ?thesis by (simp add: load_messages_def)
qed


text \<open>
  A top-level empty key that holds a mapping is dropped from the flattened keys of its
  section: the key path \<open>["", "b"]\<close> is flattened to \<open>"b"\<close>, not to \<open>".b"\<close>.
\<close>

lemma get_all_keys_empty_section_key:
  "get_all_keys [([], YDict [(''b'', YStr ''1'')])] [] = {''b''} \<and>
   dot_join ` leaf_paths [([], YDict [(''b'', YStr ''1'')])] = {''.b''}"
  by simp

text \<open>
  Claim C8, as the code has it. For a target language other than the default whose
  forced load gives a non-empty tree, \<open>validate_translations\<close> reports the validity flag
  true, no error, \<open>missing_keys\<close> as the flattened keys of the default tree that are not
  flattened keys of the target, \<open>extra_keys\<close> as the converse difference, and one
  warning counting the missing keys if there are any; the flattened keys are the
  dot-joined key paths to the leaves, for trees in which no top-level key holding a
  mapping is the empty string. When the target loads as the empty tree, the flag is
  false, one error is recorded and both key sets are empty. Flattening
  \<open>{a: {b: "1", c: "2"}}\<close> gives \<open>{"a.b", "a.c"}\<close>, and against \<open>{a: {b: "1"}}\<close> the
  difference is \<open>{"a.c"}\<close> one way and empty the other way.
\<close>

theorem validate_reports_key_differences:
  "(\<forall>translations s1 evs default_trans s2 evs2.
      load_messages fs clk lang_code True s = (Inr translations, s1, evs) \<and>
      translations \<noteq> [] \<and> lang_code \<noteq> default_language s1 \<and>
      load_messages fs clk2 (default_language s1) False s1 = (Inr default_trans, s2, evs2) \<and>
      no_empty_section translations \<and> no_empty_section default_trans \<longrightarrow>
      validate_translations fs clk clk2 lang_code s =
        (\<lparr>valid = True, errors = [],
          warnings =
            (if dot_join ` leaf_paths default_trans - dot_join ` leaf_paths translations \<noteq> {}
             then [Keys_missing
                     (card (dot_join ` leaf_paths default_trans - dot_join ` leaf_paths translations))
                     (default_language s2)]
             else []),
          missing_keys = dot_join ` leaf_paths default_trans - dot_join ` leaf_paths translations,
          extra_keys = dot_join ` leaf_paths translations - dot_join ` leaf_paths default_trans\<rparr>,
         s2, evs @ evs2)) \<and>
   (\<forall>s1 evs.
      load_messages fs clk lang_code True s = (Inr [], s1, evs) \<longrightarrow>
      validate_translations fs clk clk2 lang_code s =
        (\<lparr>valid = False, errors = [No_translations_found lang_code], warnings = [],
          missing_keys = {}, extra_keys = {}\<rparr>, s1, evs)) \<and>
   get_all_keys [(''a'', YDict [(''b'', YStr ''1''), (''c'', YStr ''2'')])] [] = {''a.b'', ''a.c''} \<and>
   get_all_keys [(''a'', YDict [(''b'', YStr ''1''), (''c'', YStr ''2'')])] []
     - get_all_keys [(''a'', YDict [(''b'', YStr ''1'')])] [] = {''a.c''} \<and>
   get_all_keys [(''a'', YDict [(''b'', YStr ''1'')])] []
     - get_all_keys [(''a'', YDict [(''b'', YStr ''1''), (''c'', YStr ''2'')])] [] = {}"
proof (intro conjI allI impI)
  fix target s1 evs default_trans s2 evs2
  assume h: "load_messages fs clk lang_code True s = (Inr target, s1, evs) \<and>
      target \<noteq> [] \<and> lang_code \<noteq> default_language s1 \<and>
      load_messages fs clk2 (default_language s1) False s1 = (Inr default_trans, s2, evs2) \<and>
      no_empty_section target \<and> no_empty_section default_trans"
  then have k1: "get_all_keys target [] = dot_join ` leaf_paths target"
    and k2: "get_all_keys default_trans [] = dot_join ` leaf_paths default_trans"
    by (simp_all add: get_all_keys_top)
  from h show "validate_translations fs clk clk2 lang_code s =
        (\<lparr>valid = True, errors = [],
          warnings =
            (if dot_join ` leaf_paths default_trans - dot_join ` leaf_paths target \<noteq> {}
             then [Keys_missing
                     (card (dot_join ` leaf_paths default_trans - dot_join ` leaf_paths target))
                     (default_language s2)]
             else []),
          missing_keys = dot_join ` leaf_paths default_trans - dot_join ` leaf_paths target,
          extra_keys = dot_join ` leaf_paths target - dot_join ` leaf_paths default_trans\<rparr>,
         s2, evs @ evs2)"
    by (simp add: validate_translations_def Let_def k1 k2)
next
  fix s1 evs
  assume "load_messages fs clk lang_code True s = (Inr [], s1, evs)"
  then show "validate_translations fs clk clk2 lang_code s =
        (\<lparr>valid = False, errors = [No_translations_found lang_code], warnings = [],
          missing_keys = {}, extra_keys = {}\<rparr>, s1, evs)"
    by (simp add: validate_translations_def)
next
  show "get_all_keys [(''a'', YDict [(''b'', YStr ''1''), (''c'', YStr ''2'')])] [] = {''a.b'', ''a.c''}"
    by auto
next
  show "get_all_keys [(''a'', YDict [(''b'', YStr ''1''), (''c'', YStr ''2'')])] []
     - get_all_keys [(''a'', YDict [(''b'', YStr ''1'')])] [] = {''a.c''}"
    by auto
next
  show "get_all_keys [(''a'', YDict [(''b'', YStr ''1'')])] []
     - get_all_keys [(''a'', YDict [(''b'', YStr ''1''), (''c'', YStr ''2'')])] [] = {}"
    by auto
qed


theorem validate_reports_key_differences_witness:
  "fst (load_messages
     (map_of [(''en'', \<lparr>st_mtime = Some 7, content = Parsed (YDict [(''a'', YDict [(''b'', YStr ''1''), (''c'', YStr ''2'')])])\<rparr>),
              (''de'', \<lparr>st_mtime = Some 8, content = Parsed (YDict [(''a'', YDict [(''b'', YStr ''1'')])])\<rparr>)])
     int ''de'' True initial_handler) = Inr [(''a'', YDict [(''b'', YStr ''1'')])] \<and>
   ''de'' \<noteq> default_language (fst (snd (load_messages
     (map_of [(''en'', \<lparr>st_mtime = Some 7, content = Parsed (YDict [(''a'', YDict [(''b'', YStr ''1''), (''c'', YStr ''2'')])])\<rparr>),
              (''de'', \<lparr>st_mtime = Some 8, content = Parsed (YDict [(''a'', YDict [(''b'', YStr ''1'')])])\<rparr>)])
     int ''de'' True initial_handler))) \<and>
   fst (load_messages
     (map_of [(''en'', \<lparr>st_mtime = Some 7, content = Parsed (YDict [(''a'', YDict [(''b'', YStr ''1''), (''c'', YStr ''2'')])])\<rparr>),
              (''de'', \<lparr>st_mtime = Some 8, content = Parsed (YDict [(''a'', YDict [(''b'', YStr ''1'')])])\<rparr>)])
     int ''en'' False
     (fst (snd (load_messages
       (map_of [(''en'', \<lparr>st_mtime = Some 7, content = Parsed (YDict [(''a'', YDict [(''b'', YStr ''1''), (''c'', YStr ''2'')])])\<rparr>),
                (''de'', \<lparr>st_mtime = Some 8, content = Parsed (YDict [(''a'', YDict [(''b'', YStr ''1'')])])\<rparr>)])
       int ''de'' True initial_handler))))
     = Inr [(''a'', YDict [(''b'', YStr ''1''), (''c'', YStr ''2'')])] \<and>
   no_empty_section [(''a'', YDict [(''b'', YStr ''1'')])] \<and>
   no_empty_section [(''a'', YDict [(''b'', YStr ''1''), (''c'', YStr ''2'')])] \<and>
   fst (validate_translations
     (map_of [(''en'', \<lparr>st_mtime = Some 7, content = Parsed (YDict [(''a'', YDict [(''b'', YStr ''1''), (''c'', YStr ''2'')])])\<rparr>),
              (''de'', \<lparr>st_mtime = Some 8, content = Parsed (YDict [(''a'', YDict [(''b'', YStr ''1'')])])\<rparr>)])
     int int ''de'' initial_handler) =
   \<lparr>valid = True, errors = [], warnings = [Keys_missing 1 ''en''],
     missing_keys = {''a.c''}, extra_keys = {}\<rparr>"
proof -
  have run: ?thesis
    by code_simp
  from validate_reports_key_differences [of
     "map_of [(''en'', \<lparr>st_mtime = Some 7, content = Parsed (YDict [(''a'', YDict [(''b'', YStr ''1''), (''c'', YStr ''2'')])])\<rparr>),
              (''de'', \<lparr>st_mtime = Some 8, content = Parsed (YDict [(''a'', YDict [(''b'', YStr ''1'')])])\<rparr>)]"
     int "''de''" initial_handler int]
  show ?thesis by (simp only: run simp_thms)
qed

text \<open>
  A target whose source is an empty document loads as the empty tree; the report then
  has no missing key although the key \<open>a\<close> of the default tree is absent from it.
\<close>

theorem validate_empty_target_reports_no_missing_keys:
  "fst (load_messages
     (map_of [(''en'', \<lparr>st_mtime = Some 7, content = Parsed (YDict [(''a'', YStr ''1'')])\<rparr>),
              (''xx'', \<lparr>st_mtime = Some 8, content = Parsed YNone\<rparr>)])
     int ''xx'' True initial_handler) = Inr [] \<and>
   fst (load_messages
     (map_of [(''en'', \<lparr>st_mtime = Some 7, content = Parsed (YDict [(''a'', YStr ''1'')])\<rparr>),
              (''xx'', \<lparr>st_mtime = Some 8, content = Parsed YNone\<rparr>)])
     int ''en'' False initial_handler) = Inr [(''a'', YStr ''1'')] \<and>
   get_all_keys [(''a'', YStr ''1'')] [] - get_all_keys [] [] = {''a''} \<and>
   missing_keys (fst (validate_translations
     (map_of [(''en'', \<lparr>st_mtime = Some 7, content = Parsed (YDict [(''a'', YStr ''1'')])\<rparr>),
              (''xx'', \<lparr>st_mtime = Some 8, content = Parsed YNone\<rparr>)])
     int int ''xx'' initial_handler)) = {} \<and>
   valid (fst (validate_translations
     (map_of [(''en'', \<lparr>st_mtime = Some 7, content = Parsed (YDict [(''a'', YStr ''1'')])\<rparr>),
              (''xx'', \<lparr>st_mtime = Some 8, content = Parsed YNone\<rparr>)])
     int int ''xx'' initial_handler)) = False"
  by code_simp

end
